theory Spec2Isabelle
  imports Main "HOL-Library.Sublist"
begin

section \<open>Python strings\<close>

text \<open>
  Both scripts work on Python \<open>str\<close> values.  A string is modelled as a list of
  characters, a character being a code point below 256.  On that range
  \<open>str.lower\<close> moves \<open>A..Z\<close> and the Latin-1 capitals (192..222 without the
  multiplication sign 215) up by 32 and leaves everything else alone, the decimal
  digits that \<open>\d\<close> and \<open>int\<close> accept are \<open>0..9\<close>, and the white space that
  \<open>str.strip\<close> removes is 9..13, 28..32, 133 and 160.
\<close>

definition lower_char :: "char \<Rightarrow> char" where
  "lower_char c =
     (let n = (of_char c :: nat)
      in if (65 \<le> n \<and> n \<le> 90) \<or> (192 \<le> n \<and> n \<le> 222 \<and> n \<noteq> 215)
         then char_of (n + 32) else c)"

definition str_lower :: "string \<Rightarrow> string" where
  "str_lower s = map lower_char s"

definition is_digit :: "char \<Rightarrow> bool" where
  "is_digit c = (let n = (of_char c :: nat) in 48 \<le> n \<and> n \<le> 57)"

definition is_space :: "char \<Rightarrow> bool" where
  "is_space c =
     (let n = (of_char c :: nat)
      in (9 \<le> n \<and> n \<le> 13) \<or> (28 \<le> n \<and> n \<le> 32) \<or> n = 133 \<or> n = 160)"

text \<open>\<open>s.strip()\<close>\<close>

definition str_strip :: "string \<Rightarrow> string" where
  "str_strip s = rev (dropWhile is_space (rev (dropWhile is_space s)))"

text \<open>\<open>sub in s\<close>: \<open>sub\<close> occurs in \<open>s\<close> as a contiguous block.\<close>

fun str_contains :: "string \<Rightarrow> string \<Rightarrow> bool" where
  "str_contains sub [] = (sub = [])"
| "str_contains sub (c # cs) = (prefix sub (c # cs) \<or> str_contains sub cs)"

text \<open>\<open>s.startswith(p)\<close> and \<open>s.endswith(p)\<close>\<close>

definition startswith :: "string \<Rightarrow> string \<Rightarrow> bool" where
  "startswith s p = prefix p s"

definition endswith :: "string \<Rightarrow> string \<Rightarrow> bool" where
  "endswith s p = (length p \<le> length s \<and> drop (length s - length p) s = p)"

text \<open>
  \<open>s.replace(old, new)\<close>: every occurrence of \<open>old\<close>, found from the left and
  without overlap, becomes \<open>new\<close>; an empty \<open>old\<close> matches before every character
  and at the end.
\<close>

function str_replace_from :: "string \<Rightarrow> string \<Rightarrow> string \<Rightarrow> string" where
  "str_replace_from old new [] = []"
| "str_replace_from old new (c # cs) =
     (if old \<noteq> [] \<and> prefix old (c # cs)
      then new @ str_replace_from old new (drop (length old) (c # cs))
      else c # str_replace_from old new cs)"
  by pat_completeness auto
termination
  by (relation "measure (\<lambda>(old, new, s). length s)") (auto simp: neq_Nil_conv)

definition str_replace :: "string \<Rightarrow> string \<Rightarrow> string \<Rightarrow> string" where
  "str_replace s old new =
     (if old = [] then new @ concat (map (\<lambda>c. c # new) s)
      else str_replace_from old new s)"

text \<open>\<open>str(n)\<close> for an \<open>int\<close>: the decimal numeral, with a minus sign when negative.\<close>

fun digits_of_nat :: "nat \<Rightarrow> string" where
  "digits_of_nat n =
     (if n < 10 then [char_of (48 + n)]
      else digits_of_nat (n div 10) @ [char_of (48 + n mod 10)])"

declare digits_of_nat.simps [simp del]

definition str_of_int :: "int \<Rightarrow> string" where
  "str_of_int i = (if i < 0 then CHR ''-'' # digits_of_nat (nat (- i)) else digits_of_nat (nat i))"

text \<open>\<open>int(s)\<close> on a run of decimal digits, as the sort key of the case folders uses it.\<close>

definition digit_value :: "char \<Rightarrow> nat" where
  "digit_value c = of_char c - 48"

definition int_of_digits :: "string \<Rightarrow> int" where
  "int_of_digits s = int (foldl (\<lambda>acc c. 10 * acc + digit_value c) 0 s)"


section \<open>Cleanup: classification of files by extension\<close>

definition DATA_FILE_EXTENSIONS :: "string list" where
  "DATA_FILE_EXTENSIONS =
     [''.csv'', ''.dta'', ''.zip'', ''.gz'', ''.tar'', ''.7z'', ''.rar'',
      ''.sas7bdat'', ''.sas7bcat'', ''.sd2'', ''.xpt'',
      ''.rds'', ''.rdata'', ''.rda'',
      ''.mat'',
      ''.pkl'', ''.pickle'',
      ''.parquet'', ''.feather'',
      ''.db'', ''.sqlite'', ''.sql'',
      ''.json'', ''.jsonl'', ''.ndjson'',
      ''.xml'',
      ''.hdf5'', ''.h5'',
      ''.nc'', ''.nc4'',
      ''.sav'', ''.por'',
      ''.xlsx'', ''.xls'']"

definition DOCUMENT_EXTENSIONS :: "string list" where
  "DOCUMENT_EXTENSIONS =
     [''.pdf'', ''.docx'', ''.doc'', ''.txt'', ''.md'', ''.rtf'',
      ''.tex'', ''.bib'', ''.log'', ''.aux'',
      ''.odt'', ''.ods'',
      ''.pptx'', ''.ppt'']"

text \<open>
  \<open>os.path.splitext\<close> (POSIX): \<open>p.rfind(c)\<close> is the last index of \<open>c\<close>, or \<open>-1\<close>.
  The extension starts at the last dot, when that dot comes after the last slash
  and some character between the two is not a dot.
\<close>

definition rfind :: "string \<Rightarrow> char \<Rightarrow> int" where
  "rfind p c =
     (if c \<in> set p
      then int (length p) - 1 - int (length (takeWhile (\<lambda>x. x \<noteq> c) (rev p)))
      else - 1)"

function splitext_scan :: "string \<Rightarrow> nat \<Rightarrow> nat \<Rightarrow> bool" where
  "splitext_scan p filenameIndex dotIndex =
     (if filenameIndex < dotIndex
      then (if p ! filenameIndex \<noteq> CHR ''.'' then True
            else splitext_scan p (filenameIndex + 1) dotIndex)
      else False)"
  by pat_completeness auto
termination
  by (relation "measure (\<lambda>(p, filenameIndex, dotIndex). dotIndex - filenameIndex)") auto

declare splitext_scan.simps [simp del]

definition splitext :: "string \<Rightarrow> string \<times> string" where
  "splitext p =
     (let sepIndex = rfind p CHR ''/'';
          dotIndex = rfind p CHR ''.''
      in if dotIndex > sepIndex \<and> splitext_scan p (nat (sepIndex + 1)) (nat dotIndex)
         then (take (nat dotIndex) p, drop (nat dotIndex) p)
         else (p, []))"

datatype file_class = Data | Document

text \<open>
  The test of \<open>classify_files_recursive\<close> on one file name: the extension of the
  lowercased name is looked up in the data set, then in the document set; a name
  in neither is kept with the documents.
\<close>

definition file_extension :: "string \<Rightarrow> string" where
  "file_extension name = snd (splitext (str_lower name))"

definition classify_name :: "string \<Rightarrow> file_class" where
  "classify_name name =
     (let ext = file_extension name
      in if ext \<in> set DATA_FILE_EXTENSIONS then Data
         else if ext \<in> set DOCUMENT_EXTENSIONS then Document
         else Document)"

subsection \<open>The recursive walk\<close>

text \<open>
  What the storage service lists in a folder: files, folders with their own
  listing, and items of any other type.  A listing that fails part-way
  (\<open>BoxAPIException\<close>) is the list of the items it produced before: the exception is
  caught in the call that walks that listing, logged, and the walk goes on in the
  parent folder.
\<close>

datatype box_item =
    BoxFile string string nat
  | BoxFolder string string "box_item list"
  | BoxOther string string

record file_info =
  fi_id :: string
  fi_name :: string
  fi_size :: nat
  fi_path :: string

function recurse_folder ::
  "box_item list \<Rightarrow> string \<Rightarrow> file_info list \<times> file_info list
     \<Rightarrow> file_info list \<times> file_info list"
where
  "recurse_folder [] path_prefix acc = acc"
| "recurse_folder (BoxFile i name sz # items) path_prefix (data_files, document_files) =
     (let item_path = path_prefix @ ''/'' @ name;
          info = \<lparr>fi_id = i, fi_name = name, fi_size = sz, fi_path = item_path\<rparr>
      in recurse_folder items path_prefix
           (case classify_name name of
              Data \<Rightarrow> (data_files @ [info], document_files)
            | Document \<Rightarrow> (data_files, document_files @ [info])))"
| "recurse_folder (BoxFolder i name sub # items) path_prefix acc =
     (let item_path = path_prefix @ ''/'' @ name
      in recurse_folder items path_prefix (recurse_folder sub item_path acc))"
| "recurse_folder (BoxOther i name # items) path_prefix acc =
     recurse_folder items path_prefix acc"
  by pat_completeness auto
termination
  by (relation "measure (\<lambda>(items, path_prefix, acc). size_list size items)") auto

definition classify_files_recursive :: "box_item list \<Rightarrow> file_info list \<times> file_info list" where
  "classify_files_recursive folder = recurse_folder folder [] ([], [])"

section \<open>Cleanup: state, remote calls and failures\<close>

text \<open>
  \<open>self.stats\<close>, and beside it the trace of what a run does to the outside world:
  the mutating calls it issues to the storage service, in order, and the
  confirmation prompt.  A call is on the trace as soon as it is issued, whether it
  then succeeds or raises.
\<close>

datatype event =
    AskConfirm nat
  | CreateSubfolder string string
  | MoveFolder string string
  | DeleteFile string

record stats =
  folders_found :: nat
  folders_checked :: nat
  folders_ready :: nat
  folders_moved :: nat
  files_deleted :: nat
  bytes_deleted :: nat
  errors :: nat

record cleanup_state = stats +
  trace :: "event list"

definition counters :: "cleanup_state \<Rightarrow> nat \<times> nat \<times> nat \<times> nat \<times> nat \<times> nat \<times> nat" where
  "counters st =
     (folders_found st, folders_checked st, folders_ready st, folders_moved st,
      files_deleted st, bytes_deleted st, errors st)"

definition initial_state :: cleanup_state where
  "initial_state =
     \<lparr>folders_found = 0, folders_checked = 0, folders_ready = 0, folders_moved = 0,
      files_deleted = 0, bytes_deleted = 0, errors = 0, trace = []\<rparr>"

definition is_delete :: "event \<Rightarrow> bool" where
  "is_delete e = (case e of DeleteFile i \<Rightarrow> True | _ \<Rightarrow> False)"

definition is_mutation :: "event \<Rightarrow> bool" where
  "is_mutation e = (case e of AskConfirm n \<Rightarrow> False | _ \<Rightarrow> True)"

definition is_prompt :: "event \<Rightarrow> bool" where
  "is_prompt e = (case e of AskConfirm n \<Rightarrow> True | _ \<Rightarrow> False)"

definition prompts :: "event list \<Rightarrow> nat" where
  "prompts tr = length (filter is_prompt tr)"

text \<open>
  What leaves a function other than by \<open>return\<close>: \<open>sys.exit(1)\<close>, and any exception
  that is not a \<open>BoxAPIException\<close> (the handlers of the storage calls catch only that
  one; \<open>run\<close> catches the rest per case, \<open>SystemExit\<close> apart).
\<close>

datatype exn = SystemExit nat | OtherException

datatype call_outcome = Succeeds | RaisesBoxAPI string | RaisesOther

datatype create_outcome = Created string | CreateRaisesBoxAPI string | CreateRaisesOther

text \<open>
  \<open>subprocess.run(args, capture_output=True, text=True, timeout=30)\<close>: the helper
  ends within the 30 seconds with a return code, its standard output and its
  standard error; or it does not (\<open>TimeoutExpired\<close>); or starting it raises, with
  the message \<open>str(e)\<close>.
\<close>

datatype proc_outcome = Completed int string string | TimeoutExpired | RunRaises string

text \<open>The outside world of a cleanup run, as the answers it gives.\<close>

record box_env =
  auth_ok :: bool
  root_folder_id :: string
  root_listing :: "box_item list"
  root_listing_fails :: bool
  folder_contents :: "string \<Rightarrow> box_item list"
  helper_exists :: bool
  helper_run :: "string list \<Rightarrow> proc_outcome"
  create_result :: create_outcome
  move_result :: "string \<Rightarrow> call_outcome"
  delete_result :: "string \<Rightarrow> call_outcome"
  stdin_line :: "string option"

section \<open>Cleanup: case-folder discovery\<close>

text \<open>
  \<open>re.compile(r'^aearep-(\d+)$', re.IGNORECASE).match(name)\<close>, giving group 1.
  The seven characters of the prefix match whatever their case; the digit run is
  greedy; and \<open>$\<close>, without \<open>re.MULTILINE\<close>, matches at the end of the string and
  also just before a line feed that ends the string.
\<close>

definition case_pattern_match :: "string \<Rightarrow> string option" where
  "case_pattern_match name =
     (let digits = takeWhile is_digit (drop 7 name);
          rest = dropWhile is_digit (drop 7 name)
      in if str_lower (take 7 name) = ''aearep-'' \<and> digits \<noteq> []
            \<and> (rest = [] \<or> rest = [CHR 0x0A])
         then Some digits else None)"

text \<open>Truth value of an \<open>Optional[str]\<close>: \<open>None\<close> and the empty string are false.\<close>

fun truthy :: "string option \<Rightarrow> bool" where
  "truthy None = False"
| "truthy (Some s) = (s \<noteq> [])"

type_synonym case_folder = "string \<times> string \<times> string"

fun scan_case_folders :: "string option \<Rightarrow> box_item list \<Rightarrow> case_folder list" where
  "scan_case_folders specific_case [] = []"
| "scan_case_folders specific_case (BoxFolder i name sub # items) =
     (case case_pattern_match name of
        None \<Rightarrow> scan_case_folders specific_case items
      | Some case_number \<Rightarrow>
          if truthy specific_case \<and> Some case_number \<noteq> specific_case
          then scan_case_folders specific_case items
          else (i, name, case_number) # scan_case_folders specific_case items)"
| "scan_case_folders specific_case (BoxFile i name sz # items) =
     scan_case_folders specific_case items"
| "scan_case_folders specific_case (BoxOther i name # items) =
     scan_case_folders specific_case items"

definition case_key :: "case_folder \<Rightarrow> int" where
  "case_key x = int_of_digits (snd (snd x))"

definition find_case_folders ::
  "box_env \<Rightarrow> string option \<Rightarrow> cleanup_state \<Rightarrow> (exn + case_folder list) \<times> cleanup_state"
where
  "find_case_folders env specific_case st =
     (if root_listing_fails env then (Inl (SystemExit 1), st)
      else
        (let case_folders = scan_case_folders specific_case (root_listing env);
             st' = st\<lparr>folders_found := length case_folders\<rparr>
         in (Inr (sort_key case_key case_folders), st')))"

section \<open>Cleanup: the readiness check\<close>

definition JIRA_PURGE_QUERY_PATH :: string where
  "JIRA_PURGE_QUERY_PATH = ''/home/vilhuber/bin/aea-scripts/jira_purge_query.py''"

definition check_jira_purge_status ::
  "bool \<Rightarrow> box_env \<Rightarrow> string \<Rightarrow> bool \<Rightarrow> exn + (bool \<times> string)"
where
  "check_jira_purge_status skip_jira env case_number verbose =
     (if skip_jira then Inr (True, ''Skipped (--skip-jira-check)'')
      else if \<not> helper_exists env then Inl (SystemExit 1)
      else
        (let args = [JIRA_PURGE_QUERY_PATH] @ (if \<not> verbose then [''-q''] else [])
                      @ [''aearep-'' @ case_number]
         in case helper_run env args of
              Completed returncode out err \<Rightarrow>
                (let is_ready = (returncode = 0);
                     output = (if out \<noteq> [] then str_strip out else str_strip err)
                 in Inr (is_ready, output))
            | TimeoutExpired \<Rightarrow> Inr (False, ''Timeout'')
            | RunRaises msg \<Rightarrow> Inr (False, msg)))"

section \<open>Cleanup: archive folder, move, deletion\<close>

fun find_completed :: "box_item list \<Rightarrow> string option" where
  "find_completed [] = None"
| "find_completed (BoxFolder i name sub # items) =
     (if name = ''1Completed'' then Some i else find_completed items)"
| "find_completed (BoxFile i name sz # items) = find_completed items"
| "find_completed (BoxOther i name # items) = find_completed items"

definition get_or_create_completed_folder ::
  "bool \<Rightarrow> box_env \<Rightarrow> cleanup_state \<Rightarrow> (exn + string option) \<times> cleanup_state"
where
  "get_or_create_completed_folder test_mode env st =
     (case find_completed (root_listing env) of
        Some i \<Rightarrow> (Inr (Some i), st)
      | None \<Rightarrow>
          if root_listing_fails env
          then (if \<not> test_mode then (Inl (SystemExit 1), st) else (Inr None, st))
          else if test_mode then (Inr None, st)
          else
            (let st' = st\<lparr>trace := trace st @ [CreateSubfolder (root_folder_id env) ''1Completed'']\<rparr>
             in case create_result env of
                  Created cid \<Rightarrow> (Inr (Some cid), st')
                | CreateRaisesBoxAPI msg \<Rightarrow> (Inl (SystemExit 1), st')
                | CreateRaisesOther \<Rightarrow> (Inl OtherException, st')))"

definition move_folder_to_completed ::
  "bool \<Rightarrow> box_env \<Rightarrow> string \<Rightarrow> string \<Rightarrow> string option \<Rightarrow> cleanup_state
     \<Rightarrow> (exn + bool) \<times> cleanup_state"
where
  "move_folder_to_completed test_mode env folder_id folder_name completed_folder_id st =
     (if test_mode then (Inr True, st)
      else
        (case completed_folder_id of
           None \<Rightarrow> (Inr False, st)
         | Some cid \<Rightarrow>
             if cid = [] then (Inr False, st)
             else
               (let st' = st\<lparr>trace := trace st @ [MoveFolder folder_id cid]\<rparr>
                in case move_result env folder_id of
                     Succeeds \<Rightarrow> (Inr True, st')
                   | RaisesBoxAPI msg \<Rightarrow>
                       if str_contains ''item_name_in_use'' (str_lower msg)
                       then (Inr False, st')
                       else (Inr False, st'\<lparr>errors := errors st' + 1\<rparr>)
                   | RaisesOther \<Rightarrow> (Inl OtherException, st'))))"

text \<open>
  The loop of \<open>delete_data_files\<close>, with its two local counters.  An exception other
  than \<open>BoxAPIException\<close> leaves the loop and the function at once, before the
  counters reach \<open>self.stats\<close>.
\<close>

fun delete_loop ::
  "bool \<Rightarrow> box_env \<Rightarrow> file_info list \<Rightarrow> nat \<Rightarrow> nat \<Rightarrow> cleanup_state
     \<Rightarrow> (exn + nat \<times> nat) \<times> cleanup_state"
where
  "delete_loop test_mode env [] deleted_count deleted_bytes st =
     (Inr (deleted_count, deleted_bytes), st)"
| "delete_loop test_mode env (file_info # files) deleted_count deleted_bytes st =
     (if test_mode
      then delete_loop test_mode env files (deleted_count + 1)
             (deleted_bytes + fi_size file_info) st
      else
        (let st' = st\<lparr>trace := trace st @ [DeleteFile (fi_id file_info)]\<rparr>
         in case delete_result env (fi_id file_info) of
              Succeeds \<Rightarrow>
                delete_loop test_mode env files (deleted_count + 1)
                  (deleted_bytes + fi_size file_info) st'
            | RaisesBoxAPI msg \<Rightarrow>
                delete_loop test_mode env files deleted_count deleted_bytes
                  (st'\<lparr>errors := errors st' + 1\<rparr>)
            | RaisesOther \<Rightarrow> (Inl OtherException, st')))"

definition delete_data_files ::
  "bool \<Rightarrow> box_env \<Rightarrow> file_info list \<Rightarrow> cleanup_state \<Rightarrow> (exn + nat) \<times> cleanup_state"
where
  "delete_data_files test_mode env data_files st =
     (case delete_loop test_mode env data_files 0 0 st of
        (Inl e, st') \<Rightarrow> (Inl e, st')
      | (Inr (deleted_count, deleted_bytes), st') \<Rightarrow>
          (Inr deleted_count,
           st'\<lparr>files_deleted := files_deleted st' + deleted_count,
               bytes_deleted := bytes_deleted st' + deleted_bytes\<rparr>))"

section \<open>Cleanup: one case folder, and the whole run\<close>

definition process_case_folder ::
  "bool \<Rightarrow> bool \<Rightarrow> box_env \<Rightarrow> string \<Rightarrow> string \<Rightarrow> string \<Rightarrow> string option
     \<Rightarrow> cleanup_state \<Rightarrow> (exn + bool) \<times> cleanup_state"
where
  "process_case_folder test_mode skip_jira env folder_id folder_name case_number
       completed_folder_id st =
     (let st1 = st\<lparr>folders_checked := folders_checked st + 1\<rparr>
      in case check_jira_purge_status skip_jira env case_number False of
           Inl e \<Rightarrow> (Inl e, st1)
         | Inr (is_ready, output) \<Rightarrow>
             if \<not> is_ready then (Inr False, st1)
             else
               (let st2 = st1\<lparr>folders_ready := folders_ready st1 + 1\<rparr>;
                    (data_files, document_files) =
                       classify_files_recursive (folder_contents env folder_id)
                in case move_folder_to_completed test_mode env folder_id folder_name
                          completed_folder_id st2 of
                     (Inl e, st3) \<Rightarrow> (Inl e, st3)
                   | (Inr move_success, st3) \<Rightarrow>
                       if \<not> move_success then (Inr False, st3)
                       else
                         (let st4 = st3\<lparr>folders_moved := folders_moved st3 + 1\<rparr>
                          in if data_files \<noteq> []
                             then (case delete_data_files test_mode env data_files st4 of
                                     (Inl e, st5) \<Rightarrow> (Inl e, st5)
                                   | (Inr deleted, st5) \<Rightarrow> (Inr True, st5))
                             else (Inr True, st4))))"

text \<open>
  The confirmation prompt of \<open>run\<close>.  \<open>input\<close> gives the line typed, or raises
  \<open>EOFError\<close> when standard input is closed.
\<close>

definition confirm_cleanup ::
  "bool \<Rightarrow> bool \<Rightarrow> box_env \<Rightarrow> case_folder list \<Rightarrow> cleanup_state
     \<Rightarrow> (exn + bool) \<times> cleanup_state"
where
  "confirm_cleanup test_mode auto_confirm env case_folders st =
     (if \<not> auto_confirm \<and> \<not> test_mode \<and> length case_folders > 1
      then
        (let st' = st\<lparr>trace := trace st @ [AskConfirm (length case_folders)]\<rparr>
         in case stdin_line env of
              None \<Rightarrow> (Inl OtherException, st')
            | Some response \<Rightarrow>
                if str_lower response \<notin> set [''y'', ''yes'']
                then (Inr False, st')
                else (Inr True, st'))
      else (Inr True, st))"

fun process_all ::
  "bool \<Rightarrow> bool \<Rightarrow> box_env \<Rightarrow> string option \<Rightarrow> case_folder list \<Rightarrow> cleanup_state
     \<Rightarrow> (exn + unit) \<times> cleanup_state"
where
  "process_all test_mode skip_jira env completed_folder_id [] st = (Inr (), st)"
| "process_all test_mode skip_jira env completed_folder_id
       ((folder_id, folder_name, case_number) # rest) st =
     (case process_case_folder test_mode skip_jira env folder_id folder_name case_number
             completed_folder_id st of
        (Inl (SystemExit code), st') \<Rightarrow> (Inl (SystemExit code), st')
      | (Inl OtherException, st') \<Rightarrow>
          process_all test_mode skip_jira env completed_folder_id rest
            (st'\<lparr>errors := errors st' + 1\<rparr>)
      | (Inr processed, st') \<Rightarrow>
          process_all test_mode skip_jira env completed_folder_id rest st')"

definition run ::
  "bool \<Rightarrow> bool \<Rightarrow> box_env \<Rightarrow> string option \<Rightarrow> bool \<Rightarrow> cleanup_state
     \<Rightarrow> (exn + unit) \<times> cleanup_state"
where
  "run test_mode skip_jira env specific_case auto_confirm st =
     (if \<not> auth_ok env then (Inl (SystemExit 1), st)
      else if \<not> skip_jira \<and> \<not> helper_exists env then (Inl (SystemExit 1), st)
      else
        (case find_case_folders env specific_case st of
           (Inl e, st1) \<Rightarrow> (Inl e, st1)
         | (Inr case_folders, st1) \<Rightarrow>
             if case_folders = [] then (Inr (), st1)
             else
               (case confirm_cleanup test_mode auto_confirm env case_folders st1 of
                  (Inl e, st2) \<Rightarrow> (Inl e, st2)
                | (Inr go, st2) \<Rightarrow>
                    if \<not> go then (Inr (), st2)
                    else
                      (case get_or_create_completed_folder test_mode env st2 of
                         (Inl e, st3) \<Rightarrow> (Inl e, st3)
                       | (Inr completed_folder_id, st3) \<Rightarrow>
                           process_all test_mode skip_jira env completed_folder_id
                             case_folders st3))))"

section \<open>Recovery: cleaning a numeric ticket field\<close>

text \<open>
  A ticket field reaches \<open>_clean_jira_numeric_field\<close> as \<open>None\<close>, a \<open>float\<close>, a \<open>str\<close>
  or an \<open>int\<close>.  A finite \<open>float\<close> is a dyadic rational, \<open>Finite m e\<close> standing for
  \<open>m * 2 ^ e\<close>; \<open>int(x)\<close> drops the fraction towards zero and raises on an infinity
  (\<open>OverflowError\<close>) and on a NaN (\<open>ValueError\<close>).
\<close>

datatype pyfloat = Finite int int | Infinity | NaN

datatype py_error = OverflowError | ValueError

datatype jira_value = JNone | JFloat pyfloat | JStr string | JInt int

fun int_of_float :: "pyfloat \<Rightarrow> py_error + int" where
  "int_of_float (Finite m e) =
     (if 0 \<le> e then Inr (m * 2 ^ nat e)
      else Inr (sgn m * (\<bar>m\<bar> div 2 ^ nat (- e))))"
| "int_of_float Infinity = Inl OverflowError"
| "int_of_float NaN = Inl ValueError"

text \<open>
  The tail of the function, on \<open>value_str = str(value)\<close>: a trailing \<open>.0\<close> is cut
  off (\<open>value_str[:-2]\<close>).
\<close>

definition strip_dot_zero :: "string \<Rightarrow> string" where
  "strip_dot_zero value_str =
     (if endswith value_str ''.0''
      then take (length value_str - 2) value_str
      else value_str)"

fun clean_jira_numeric_field :: "jira_value \<Rightarrow> py_error + string option" where
  "clean_jira_numeric_field JNone = Inr None"
| "clean_jira_numeric_field (JFloat f) =
     (case int_of_float f of
        Inl err \<Rightarrow> Inl err
      | Inr i \<Rightarrow> Inr (Some (str_of_int i)))"
| "clean_jira_numeric_field (JStr s) = Inr (Some (strip_dot_zero s))"
| "clean_jira_numeric_field (JInt i) = Inr (Some (strip_dot_zero (str_of_int i)))"

section \<open>Recovery: the fuzzy folder-name matcher\<close>

definition matches_folder_name :: "string \<Rightarrow> string \<Rightarrow> bool" where
  "matches_folder_name item_name expected_name =
     (let item_lower = str_lower item_name;
          expected_lower = str_lower expected_name
      in if item_lower = expected_lower then True
         else if str_contains expected_lower item_lower then True
         else if item_lower = ''aearep-'' @ expected_lower
                 \<or> str_contains (''aearep-'' @ expected_lower) item_lower then True
         else if startswith expected_lower ''aearep-'' then
           (let bare_expected = str_replace expected_lower ''aearep-'' []
            in if item_lower = bare_expected \<or> str_contains bare_expected item_lower
               then True else False)
         else False)"


section \<open>Recovery: trashed items\<close>

text \<open>
  A \<open>datetime\<close>: its date-and-time reading, counted in microseconds from a fixed
  origin, and its UTC offset in microseconds (\<open>None\<close> for a naive value).  Python
  orders two naive values by their readings and two aware values by their
  instants, reading minus offset; comparing a naive with an aware value raises
  \<open>TypeError\<close>.
\<close>

record datetime =
  wall :: int
  utcoffset :: "int option"

definition dt_less :: "datetime \<Rightarrow> datetime \<Rightarrow> bool option" where
  "dt_less a b =
     (case (utcoffset a, utcoffset b) of
        (None, None) \<Rightarrow> Some (wall a < wall b)
      | (Some x, Some y) \<Rightarrow> Some (wall a - x < wall b - y)
      | _ \<Rightarrow> None)"

text \<open>The instant of a timestamp on the UTC scale; a naive value is read as UTC.\<close>

definition instant :: "datetime \<Rightarrow> int" where
  "instant d = (case utcoffset d of None \<Rightarrow> wall d | Some off \<Rightarrow> wall d - off)"

text \<open>
  \<open>self.cutoff_date = datetime.utcnow() - timedelta(days=days_back)\<close>: a naive value
  holding a UTC reading.
\<close>

definition cutoff_date :: "int \<Rightarrow> int \<Rightarrow> datetime" where
  "cutoff_date utcnow days_back =
     \<lparr>wall = utcnow - days_back * 86400000000, utcoffset = None\<rparr>"

text \<open>
  The \<open>trashed_by\<close> field is absent (\<open>None\<close>), a dictionary, or some other object.
  \<open>path_entries\<close> is what the loop over \<open>path_collection.get('entries', [])\<close>
  visits: nothing when the field is absent, empty or not a dictionary; an entry is
  a dictionary, with or without an \<open>id\<close>, or some other object.
\<close>

datatype trashed_by_value = NoUser | UserDict "(string \<times> string) list" | UserObject

datatype path_entry = EntryDict "string option" | EntryObject

record trashed_item =
  ti_id :: string
  ti_name :: string
  ti_type :: string
  ti_size :: nat
  trashed_at :: "string option"
  trashed_by :: trashed_by_value
  path_entries :: "path_entry list"
  parent_id :: "string option"

section \<open>Recovery: the filter on trashed items\<close>

text \<open>
  The date step of the loop body: true when the item is skipped as deleted before
  the cutoff.  \<open>fromisoformat\<close> is \<open>datetime.fromisoformat\<close>, \<open>None\<close> where it raises;
  any exception of the step is caught and the item goes on to the next step.
\<close>

definition date_filter_skips ::
  "(string \<Rightarrow> datetime option) \<Rightarrow> datetime \<Rightarrow> trashed_item \<Rightarrow> bool"
where
  "date_filter_skips fromisoformat cutoff_dt item =
     (case trashed_at item of
        None \<Rightarrow> False
      | Some trashed_at_str \<Rightarrow>
          if trashed_at_str = [] then False
          else
            (case fromisoformat (str_replace trashed_at_str ''Z'' ''+00:00'') of
               None \<Rightarrow> False
             | Some parsed \<Rightarrow>
                 (let (trashed_at_dt, cutoff) =
                        (case utcoffset parsed of
                           Some tz \<Rightarrow> (parsed, cutoff_dt\<lparr>utcoffset := Some tz\<rparr>)
                         | None \<Rightarrow> (parsed\<lparr>utcoffset := None\<rparr>, cutoff_dt))
                  in case dt_less trashed_at_dt cutoff of
                       None \<Rightarrow> False
                     | Some before \<Rightarrow> before)))"

text \<open>The user step: true when the item is skipped as deleted by someone else.\<close>

definition user_login_of :: "trashed_by_value \<Rightarrow> string" where
  "user_login_of tb =
     (case tb of
        UserDict d \<Rightarrow> (case map_of d ''login'' of None \<Rightarrow> [] | Some login \<Rightarrow> login)
      | _ \<Rightarrow> [])"

definition user_filter_skips :: "string \<Rightarrow> trashed_item \<Rightarrow> bool" where
  "user_filter_skips user_filter item =
     (if user_filter \<noteq> [] then
        (case trashed_by item of
           NoUser \<Rightarrow> False
         | UserDict [] \<Rightarrow> False
         | tb \<Rightarrow> \<not> str_contains (str_lower user_filter) (str_lower (user_login_of tb)))
      else False)"

text \<open>The folder step: the four checks in their order, then the no-criteria rule.\<close>

fun path_has_folder :: "path_entry list \<Rightarrow> string \<Rightarrow> bool" where
  "path_has_folder [] folder_id = False"
| "path_has_folder (EntryDict (Some i) # entries) folder_id =
     (if i = folder_id then True else path_has_folder entries folder_id)"
| "path_has_folder (EntryDict None # entries) folder_id = path_has_folder entries folder_id"
| "path_has_folder (EntryObject # entries) folder_id = path_has_folder entries folder_id"

definition folder_filter_matches :: "string option \<Rightarrow> string option \<Rightarrow> trashed_item \<Rightarrow> bool" where
  "folder_filter_matches folder_id folder_name item =
     (let m1 = (truthy folder_id \<and> Some (ti_id item) = folder_id);
          m2 = (if \<not> m1 \<and> truthy folder_id
                then (if truthy (parent_id item) \<and> parent_id item = folder_id then True else m1)
                else m1);
          m3 = (if \<not> m2 \<and> truthy folder_id
                then (case folder_id of
                        Some fid \<Rightarrow> if path_has_folder (path_entries item) fid then True else m2
                      | None \<Rightarrow> m2)
                else m2);
          m4 = (if \<not> m3 \<and> truthy folder_name
                then (case folder_name of
                        Some fname \<Rightarrow> if matches_folder_name (ti_name item) fname then True else m3
                      | None \<Rightarrow> m3)
                else m3)
      in if \<not> truthy folder_id \<and> \<not> truthy folder_name then True else m4)"

fun filter_trashed_items ::
  "(string \<Rightarrow> datetime option) \<Rightarrow> datetime \<Rightarrow> trashed_item list \<Rightarrow> string option
     \<Rightarrow> string option \<Rightarrow> string \<Rightarrow> trashed_item list"
where
  "filter_trashed_items fromisoformat cutoff_dt [] folder_id folder_name user_filter = []"
| "filter_trashed_items fromisoformat cutoff_dt (item # items) folder_id folder_name user_filter =
     (let rest = filter_trashed_items fromisoformat cutoff_dt items folder_id folder_name
                   user_filter
      in if date_filter_skips fromisoformat cutoff_dt item then rest
         else if user_filter_skips user_filter item then rest
         else if \<not> folder_filter_matches folder_id folder_name item then rest
         else item # rest)"


section \<open>Recovery: the run up to the confirmation\<close>

text \<open>
  \<open>BoxRecovery.run\<close> from its start to the point where restoring begins.  The
  answers of the outside world: whether the two logins succeed, what
  \<open>get_box_info_from_jira\<close> finds for the case (folder id and folder name), what
  \<open>get_trashed_items\<close> lists, the clock, and the line typed at the prompt.  The
  result says how the run goes on: it stops after listing, stops with nothing to
  restore, is cancelled at the prompt, or goes on to restore the filtered items.
\<close>

record recovery_env =
  box_login_ok :: bool
  jira_login_ok :: bool
  jira_box_info :: "string \<Rightarrow> string option \<times> string option"
  trash_listing :: "trashed_item list"
  iso_parser :: "string \<Rightarrow> datetime option"
  utcnow :: int
  typed_line :: "string option"

record recovery_state =
  items_found :: nat
  items_restored :: nat
  recovery_errors :: nat
  recovery_trace :: "event list"

datatype run_outcome = ListOnly | NothingToRestore | Cancelled | Restoring "trashed_item list"

definition confirm_restore ::
  "bool \<Rightarrow> bool \<Rightarrow> recovery_env \<Rightarrow> trashed_item list \<Rightarrow> recovery_state
     \<Rightarrow> (exn + bool) \<times> recovery_state"
where
  "confirm_restore test_mode auto_confirm env filtered_items st =
     (if \<not> auto_confirm \<and> \<not> test_mode
      then
        (let st' = st\<lparr>recovery_trace := recovery_trace st @ [AskConfirm (length filtered_items)]\<rparr>
         in case typed_line env of
              None \<Rightarrow> (Inl OtherException, st')
            | Some response \<Rightarrow>
                if str_lower response \<notin> set [''y'', ''yes'']
                then (Inr False, st')
                else (Inr True, st'))
      else (Inr True, st))"

definition recovery_run ::
  "bool \<Rightarrow> int \<Rightarrow> recovery_env \<Rightarrow> string \<Rightarrow> bool \<Rightarrow> bool \<Rightarrow> recovery_state
     \<Rightarrow> (exn + run_outcome) \<times> recovery_state"
where
  "recovery_run test_mode days_back env case_number list_only auto_confirm st =
     (if \<not> box_login_ok env then (Inl (SystemExit 1), st)
      else if \<not> jira_login_ok env then (Inl (SystemExit 1), st)
      else
        (let (box_folder_id, box_folder_name) = jira_box_info env case_number
         in if \<not> truthy box_folder_id then (Inl (SystemExit 1), st)
            else
              (let trashed_items = trash_listing env;
                   filtered_items =
                     filter_trashed_items (iso_parser env)
                       (cutoff_date (utcnow env) days_back) trashed_items
                       box_folder_id box_folder_name ''aeadata'';
                   st1 = st\<lparr>items_found := length filtered_items\<rparr>
               in if list_only then (Inr ListOnly, st1)
                  else if filtered_items = [] then (Inr NothingToRestore, st1)
                  else
                    (case confirm_restore test_mode auto_confirm env filtered_items st1 of
                       (Inl e, st2) \<Rightarrow> (Inl e, st2)
                     | (Inr go, st2) \<Rightarrow>
                         if \<not> go then (Inr Cancelled, st2)
                         else (Inr (Restoring filtered_items), st2)))))"


section \<open>The wording of the specification, for comparison\<close>

text \<open>
  A case-folder name in the words of the specification: the prefix \<open>aearep-\<close> in
  any mix of cases, followed by one or more decimal digits and nothing else.
\<close>

definition spec_case_folder_name :: "string \<Rightarrow> bool" where
  "spec_case_folder_name name =
     (str_lower (take 7 name) = ''aearep-'' \<and> drop 7 name \<noteq> []
      \<and> list_all is_digit (drop 7 name))"

text \<open>A name without the single line feed that may end it.\<close>

definition chomp :: "string \<Rightarrow> string" where
  "chomp name = (if name \<noteq> [] \<and> last name = CHR 0x0A then butlast name else name)"

text \<open>
  The files of a folder tree in the order of the walk, each with its path from
  the case root: the files that the specification says are put into one of the
  two buckets.
\<close>

function walk :: "box_item list \<Rightarrow> string \<Rightarrow> file_info list" where
  "walk [] path_prefix = []"
| "walk (BoxFile i name sz # items) path_prefix =
     \<lparr>fi_id = i, fi_name = name, fi_size = sz, fi_path = path_prefix @ ''/'' @ name\<rparr>
       # walk items path_prefix"
| "walk (BoxFolder i name sub # items) path_prefix =
     walk sub (path_prefix @ ''/'' @ name) @ walk items path_prefix"
| "walk (BoxOther i name # items) path_prefix = walk items path_prefix"
  by pat_completeness auto
termination
  by (relation "measure (\<lambda>(items, path_prefix). size_list size items)") auto

section \<open>Example worlds\<close>

definition example_root :: "box_item list" where
  "example_root =
     [BoxFolder ''31'' ''aearep-20'' [],
      BoxFile ''32'' ''aearep-7'' 10,
      BoxFolder ''33'' ''AEAREP-3'' [],
      BoxFolder ''34'' ''aearep-12a'' [],
      BoxFolder ''35'' ''1Completed'' []]"

definition example_env :: box_env where
  "example_env =
     \<lparr>auth_ok = True, root_folder_id = ''1'', root_listing = example_root,
      root_listing_fails = False,
      folder_contents = (\<lambda>i. [BoxFile (i @ ''01'') ''data.CSV'' 100,
                               BoxFolder (i @ ''02'') ''docs''
                                 [BoxFile (i @ ''03'') ''report.pdf'' 7,
                                  BoxFile (i @ ''04'') ''raw.dta'' 50,
                                  BoxFile (i @ ''05'') ''notes'' 1]]),
      helper_exists = True,
      helper_run = (\<lambda>args. Completed 0 ''ready'' []),
      create_result = Created ''99'',
      move_result = (\<lambda>i. Succeeds),
      delete_result = (\<lambda>i. Succeeds),
      stdin_line = Some ''y''\<rparr>"

definition helper_env :: "int \<Rightarrow> string \<Rightarrow> string \<Rightarrow> box_env" where
  "helper_env returncode out err =
     example_env\<lparr>helper_run := (\<lambda>args. Completed returncode out err)\<rparr>"

text \<open>
  A parser that agrees with \<open>datetime.fromisoformat\<close> on the three timestamps of the
  examples: 27 October 2026, 13:00, five hours east of UTC; 1 November 2026, 09:00
  UTC; and 20 October 2026, 09:00 UTC.  Readings and offsets are in microseconds,
  readings counted from 1 January 1970, 00:00.
\<close>

definition example_iso :: "string \<Rightarrow> datetime option" where
  "example_iso s =
     (if s = ''2026-10-27T13:00:00+05:00''
      then Some \<lparr>wall = 1793106000000000, utcoffset = Some 18000000000\<rparr>
      else if s = ''2026-11-01T09:00:00+00:00''
      then Some \<lparr>wall = 1793523600000000, utcoffset = Some 0\<rparr>
      else if s = ''2026-10-20T09:00:00+00:00''
      then Some \<lparr>wall = 1792486800000000, utcoffset = Some 0\<rparr>
      else None)"

definition example_item :: "string \<Rightarrow> string option \<Rightarrow> trashed_by_value \<Rightarrow> string option
    \<Rightarrow> trashed_item" where
  "example_item i at_str by_user parent =
     \<lparr>ti_id = i, ti_name = ''raw.csv'', ti_type = ''file'', ti_size = 100,
      trashed_at = at_str, trashed_by = by_user, path_entries = [], parent_id = parent\<rparr>"

definition aeadata_user :: trashed_by_value where
  "aeadata_user = UserDict [(''login'', ''AEAdata@example.org'')]"

definition other_user :: trashed_by_value where
  "other_user = UserDict [(''login'', ''someone@example.org'')]"

text \<open>The clock of the examples: 3 November 2026, 09:00 UTC.\<close>

definition example_now :: int where
  "example_now = 1793696400000000"

definition example_recovery_env :: recovery_env where
  "example_recovery_env =
     \<lparr>box_login_ok = True, jira_login_ok = True,
      jira_box_info = (\<lambda>case_number. (Some ''555'', Some ''aearep-7712'')),
      trash_listing =
        [example_item ''701'' (Some ''2026-11-01T09:00:00Z'') aeadata_user (Some ''555'')],
      iso_parser = example_iso,
      utcnow = example_now,
      typed_line = Some ''y''\<rparr>"

definition initial_recovery_state :: recovery_state where
  "initial_recovery_state =
     \<lparr>items_found = 0, items_restored = 0, recovery_errors = 0, recovery_trace = []\<rparr>"

definition name_in_use_env :: box_env where
  "name_in_use_env =
     example_env\<lparr>move_result :=
       (\<lambda>i. RaisesBoxAPI ''Message: Item with the same name already exists. Code: item_name_in_use'')\<rparr>"

section \<open>Properties of the ticket-field cleaner\<close>

lemma str_of_int_1234: "str_of_int 1234 = ''1234''"
  by code_simp

lemma int_of_float_1234: "int_of_float (Finite (1234 * 2 ^ k) (- int k)) = Inr 1234"
  by (cases "k = 0") simp_all

text \<open>
  C7.  The cleaner turns the float \<open>1234.0\<close> and the string \<open>"1234.0"\<close> into the
  string \<open>"1234"\<close>, and \<open>None\<close> into \<open>None\<close>.  The float \<open>1234.0\<close> is \<open>1234 * 2 ^ 0\<close>,
  and the same number written with any binary exponent, \<open>(1234 * 2 ^ k) * 2 ^ (- k)\<close>,
  as the 53-bit significand of a double has it.
\<close>

theorem clean_jira_numeric_field_examples:
  "clean_jira_numeric_field (JFloat (Finite 1234 0)) = Inr (Some ''1234'')
   \<and> (\<forall>k. clean_jira_numeric_field (JFloat (Finite (1234 * 2 ^ k) (- int k)))
          = Inr (Some ''1234''))
   \<and> clean_jira_numeric_field (JStr ''1234.0'') = Inr (Some ''1234'')
   \<and> clean_jira_numeric_field JNone = Inr None"
proof -
  have a: "clean_jira_numeric_field (JFloat (Finite (1234 * 2 ^ k) (- int k)))
             = Inr (Some ''1234'')" for k
    unfolding clean_jira_numeric_field.simps int_of_float_1234
    by (simp add: str_of_int_1234)
  have b: "clean_jira_numeric_field (JStr ''1234.0'') = Inr (Some ''1234'')"
    by (simp add: strip_dot_zero_def endswith_def)
  from a[of 0] a b show ?thesis by simp
qed

theorem clean_jira_numeric_field_witness:
  "clean_jira_numeric_field (JFloat (Finite (1234 * 2 ^ 42) (- 42))) = Inr (Some ''1234'')"
  using clean_jira_numeric_field_examples by (metis of_nat_numeral)

section \<open>Properties of the fuzzy folder-name matcher\<close>

text \<open>
  C6.  \<open>"7712"\<close> matches \<open>"aearep-7712"\<close> and the other way round; \<open>"aearep-7712"\<close>
  and \<open>"aearep-9999"\<close> do not match, in either order; and the short alias \<open>"77"\<close>
  matches the folder name \<open>"7712"\<close>, since containment is all that is asked.
  The first argument is the item's name, the second the expected name.
\<close>

theorem matches_folder_name_examples:
  "matches_folder_name ''aearep-7712'' ''7712''
   \<and> matches_folder_name ''7712'' ''aearep-7712''
   \<and> \<not> matches_folder_name ''aearep-7712'' ''aearep-9999''
   \<and> \<not> matches_folder_name ''aearep-9999'' ''aearep-7712''
   \<and> matches_folder_name ''7712'' ''77''"
proof -
  have 1: "matches_folder_name ''aearep-7712'' ''7712''" by code_simp
  have 2: "matches_folder_name ''7712'' ''aearep-7712''" by code_simp
  have 3: "\<not> matches_folder_name ''aearep-7712'' ''aearep-9999''" by code_simp
  have 4: "\<not> matches_folder_name ''aearep-9999'' ''aearep-7712''" by code_simp
  have 5: "matches_folder_name ''7712'' ''77''" by code_simp
  from 1 2 3 4 5 show ?thesis by simp
qed

section \<open>Properties of case-folder discovery\<close>

lemma not_digit_LF: "\<not> is_digit (CHR 0x0A)"
  by (simp add: is_digit_def)

lemma chomp_snoc: "chomp (body @ [CHR 0x0A]) = body"
  by (simp add: chomp_def)

lemma len7:
  assumes "str_lower p = ''aearep-''"
  shows "length p = 7"
proof -
  have "length p = length (str_lower p)" by (simp add: str_lower_def)
  also have "\<dots> = 7" by (simp add: assms)
  finally show ?thesis .
qed

lemma spec_name_accept:
  assumes "spec_case_folder_name name"
  shows "case_pattern_match name = Some (drop 7 name)"
proof -
  from assms have p: "str_lower (take 7 name) = ''aearep-''" and ne: "drop 7 name \<noteq> []"
    and d: "list_all is_digit (drop 7 name)"
    by (simp_all add: spec_case_folder_name_def)
  from d have tw: "takeWhile is_digit (drop 7 name) = drop 7 name"
    and dw: "dropWhile is_digit (drop 7 name) = []"
    by (simp_all add: list_all_iff)
  show ?thesis unfolding case_pattern_match_def tw dw using p ne by simp
qed

lemma spec_name_last_digit:
  assumes "spec_case_folder_name name"
  shows "name \<noteq> [] \<and> is_digit (last name)"
proof -
  from assms have ne: "drop 7 name \<noteq> []" and d: "list_all is_digit (drop 7 name)"
    by (simp_all add: spec_case_folder_name_def)
  from ne have "last name = last (drop 7 name)" by (simp add: last_drop)
  moreover from ne d have "is_digit (last (drop 7 name))"
    using last_in_set[OF ne] by (simp add: list_all_iff)
  ultimately show ?thesis using ne by auto
qed

lemma spec_name_LF_accept:
  assumes "spec_case_folder_name body"
  shows "case_pattern_match (body @ [CHR 0x0A]) = Some (drop 7 body)"
proof -
  from assms have p: "str_lower (take 7 body) = ''aearep-''" and ne: "drop 7 body \<noteq> []"
    and d: "list_all is_digit (drop 7 body)"
    by (simp_all add: spec_case_folder_name_def)
  from ne have len: "7 < length body" by simp
  then have t: "take 7 (body @ [CHR 0x0A]) = take 7 body"
    and dr: "drop 7 (body @ [CHR 0x0A]) = drop 7 body @ [CHR 0x0A]" by simp_all
  from d have tw: "takeWhile is_digit (drop 7 body @ [CHR 0x0A]) = drop 7 body"
    by (simp add: list_all_iff takeWhile_append2 not_digit_LF)
  from d have dw: "dropWhile is_digit (drop 7 body @ [CHR 0x0A]) = [CHR 0x0A]"
    by (simp add: list_all_iff dropWhile_append2 not_digit_LF)
  show ?thesis unfolding case_pattern_match_def t dr tw dw using p ne by simp
qed

lemma match_SomeD:
  assumes "case_pattern_match name = Some ds"
  shows "spec_case_folder_name (chomp name) \<and> ds = drop 7 (chomp name)"
proof -
  let ?d = "takeWhile is_digit (drop 7 name)"
  let ?r = "dropWhile is_digit (drop 7 name)"
  from assms have p: "str_lower (take 7 name) = ''aearep-''" and ds: "ds = ?d" and ne: "?d \<noteq> []"
    and r: "?r = [] \<or> ?r = [CHR 0x0A]"
    by (auto simp: case_pattern_match_def Let_def split: if_splits)
  have split: "drop 7 name = ?d @ ?r" by simp
  have alld: "list_all is_digit ?d" by (auto simp: list_all_iff dest: set_takeWhileD)
  from r show ?thesis
  proof
    assume r0: "?r = []"
    with split have eq: "drop 7 name = ?d" by simp
    with p ne alld have s: "spec_case_folder_name name"
      by (simp add: spec_case_folder_name_def)
    from spec_name_last_digit[OF s] not_digit_LF have "chomp name = name"
      by (auto simp: chomp_def)
    with s eq ds show ?thesis by simp
  next
    assume r1: "?r = [CHR 0x0A]"
    with split have eq: "drop 7 name = ?d @ [CHR 0x0A]" by simp
    define body where "body = take 7 name @ ?d"
    have "name = take 7 name @ drop 7 name" by simp
    also have "\<dots> = take 7 name @ (?d @ [CHR 0x0A])"
      using arg_cong[OF eq, of "\<lambda>x. take 7 name @ x"] .
    also have "\<dots> = body @ [CHR 0x0A]" by (simp only: body_def append_assoc)
    finally have "chomp name = body" by (simp only: chomp_snoc)
    then have ch: "chomp name = take 7 name @ ?d" by (simp only: body_def)
    from p have l7: "length (take 7 name) = 7" by (rule len7)
    then have t: "take 7 (take 7 name @ ?d) = take 7 name" and dr: "drop 7 (take 7 name @ ?d) = ?d"
      by simp_all
    show ?thesis unfolding ch spec_case_folder_name_def t dr using p ne alld ds by simp
  qed
qed

lemma case_pattern_match_eq:
  "case_pattern_match name =
     (if spec_case_folder_name (chomp name) then Some (drop 7 (chomp name)) else None)"
proof (cases "case_pattern_match name")
  case (Some ds)
  with match_SomeD[OF Some] show ?thesis by simp
next
  case None
  have "\<not> spec_case_folder_name (chomp name)"
  proof
    assume s: "spec_case_folder_name (chomp name)"
    show False
    proof (cases "name \<noteq> [] \<and> last name = CHR 0x0A")
      case True
      then have "name = chomp name @ [CHR 0x0A]"
        using append_butlast_last_id[of name] by (simp add: chomp_def)
      with spec_name_LF_accept[OF s] None show False by simp
    next
      case False
      then have "chomp name = name" by (auto simp: chomp_def)
      with spec_name_accept s None show False by simp
    qed
  qed
  with None show ?thesis by simp
qed

lemma scan_case_folders_mem:
  "(i, n, c) \<in> set (scan_case_folders specific_case items) \<longleftrightarrow>
     (\<exists>sub. BoxFolder i n sub \<in> set items) \<and> case_pattern_match n = Some c
       \<and> (truthy specific_case \<longrightarrow> specific_case = Some c)"
  by (induction specific_case items rule: scan_case_folders.induct)
     (auto split: option.splits)

lemma case_pattern_match_no_final_LF:
  assumes "name = [] \<or> last name \<noteq> CHR 0x0A"
  shows "case_pattern_match name =
           (if spec_case_folder_name name then Some (drop 7 name) else None)"
proof -
  from assms have "chomp name = name" by (auto simp: chomp_def)
  with case_pattern_match_eq[of name] show ?thesis by simp
qed

text \<open>
  C4.  Folder names come from the listing of the storage service, which has no
  name that ends in a line feed.  On every such name the matcher accepts exactly
  the names that read \<open>aearep-\<close> (in any mix of cases) followed by one or more
  digits and nothing else, and it gives that digit run as the case number; so
  \<open>aearep-12a\<close>, \<open>otheraearep-12\<close> and \<open>otherprefix-12\<close> are rejected.  When the root
  folder can be listed, \<open>find_case_folders\<close> returns the folders of the listing whose
  name is accepted (and whose case number is the one asked for, when one is asked
  for), each with its id, name and case number, in ascending order of the case
  number read as an integer.  Names are over the code points below 256, where the
  digits of \<open>\d\<close> are \<open>0\<close> to \<open>9\<close>.
\<close>

theorem case_folder_discovery:
  "((name = [] \<or> last name \<noteq> CHR 0x0A) \<longrightarrow>
      case_pattern_match name =
        (if spec_case_folder_name name then Some (drop 7 name) else None))
   \<and> case_pattern_match ''aearep-12a'' = None
   \<and> case_pattern_match ''otheraearep-12'' = None
   \<and> case_pattern_match ''otherprefix-12'' = None
   \<and> (\<not> root_listing_fails env \<longrightarrow>
         (\<exists>folders st'.
            find_case_folders env specific_case st = (Inr folders, st')
            \<and> sorted (map case_key folders)
            \<and> (\<forall>i n c. (i, n, c) \<in> set folders \<longleftrightarrow>
                  (\<exists>sub. BoxFolder i n sub \<in> set (root_listing env))
                  \<and> case_pattern_match n = Some c
                  \<and> (truthy specific_case \<longrightarrow> specific_case = Some c))))"
proof -
  have a: "case_pattern_match ''aearep-12a'' = None" by code_simp
  have b: "case_pattern_match ''otheraearep-12'' = None" by code_simp
  have c: "case_pattern_match ''otherprefix-12'' = None" by code_simp
  have d: "\<exists>folders st'.
            find_case_folders env specific_case st = (Inr folders, st')
            \<and> sorted (map case_key folders)
            \<and> (\<forall>i n c. (i, n, c) \<in> set folders \<longleftrightarrow>
                  (\<exists>sub. BoxFolder i n sub \<in> set (root_listing env))
                  \<and> case_pattern_match n = Some c
                  \<and> (truthy specific_case \<longrightarrow> specific_case = Some c))"
    if "\<not> root_listing_fails env"
    using that by (simp add: find_case_folders_def Let_def scan_case_folders_mem)
  from case_pattern_match_no_final_LF[of name] a b c d show ?thesis by blast
qed

theorem case_folder_discovery_witness:
  "last ''AEAREP-3'' \<noteq> CHR 0x0A
   \<and> spec_case_folder_name ''AEAREP-3''
   \<and> case_pattern_match ''AEAREP-3'' = Some ''3''
   \<and> \<not> root_listing_fails example_env
   \<and> fst (find_case_folders example_env None initial_state)
        = Inr [(''33'', ''AEAREP-3'', ''3''), (''31'', ''aearep-20'', ''20'')]
   \<and> (\<exists>folders st'.
         find_case_folders example_env None initial_state = (Inr folders, st')
         \<and> sorted (map case_key folders)
         \<and> (''33'', ''AEAREP-3'', ''3'') \<in> set folders)"
proof -
  have nl: "last ''AEAREP-3'' \<noteq> CHR 0x0A" by simp
  have sp: "spec_case_folder_name ''AEAREP-3''" by code_simp
  have ok: "\<not> root_listing_fails example_env" by (simp add: example_env_def)
  have ev: "fst (find_case_folders example_env None initial_state)
        = Inr [(''33'', ''AEAREP-3'', ''3''), (''31'', ''aearep-20'', ''20'')]"
    by code_simp
  note inst = case_folder_discovery[of "''AEAREP-3''" example_env None initial_state]
  from inst nl sp have m: "case_pattern_match ''AEAREP-3'' = Some ''3''" by simp
  have r: "BoxFolder ''33'' ''AEAREP-3'' [] \<in> set (root_listing example_env)"
    by (simp add: example_env_def example_root_def)
  from inst ok
  obtain folders st' where
    f: "find_case_folders example_env None initial_state = (Inr folders, st')"
    and s: "sorted (map case_key folders)"
    and mem: "\<And>i n c. (i, n, c) \<in> set folders \<longleftrightarrow>
                  (\<exists>sub. BoxFolder i n sub \<in> set (root_listing example_env))
                  \<and> case_pattern_match n = Some c
                  \<and> (truthy None \<longrightarrow> None = Some c)"
    by blast
  from mem[of "''33''" "''AEAREP-3''" "''3''"] m r
  have "(''33'', ''AEAREP-3'', ''3'') \<in> set folders" by auto
  with nl sp m ok ev f s show ?thesis by blast
qed

section \<open>Properties of the readiness check\<close>

text \<open>
  C8, as amended.  With the bypass flag set the check answers ready without
  starting the helper.  With the flag off: a missing helper script ends the
  process with status 1; otherwise the helper is started with the ticket key
  \<open>aearep-<case number>\<close> (after \<open>-q\<close> unless verbose), and the check answers ready
  exactly when the helper ends with return code zero, not ready when it ends with
  any other code, when it runs into the 30-second timeout and when starting it
  raises.  The explanation is the helper's standard output with the white space
  at both ends stripped, or its standard error, stripped likewise, when standard
  output is empty; \<open>Timeout\<close> after a timeout; the exception's text when starting
  the helper raised.
\<close>

theorem readiness_check:
  "check_jira_purge_status True env case_number verbose
      = Inr (True, ''Skipped (--skip-jira-check)'')
   \<and> (\<not> helper_exists env \<longrightarrow>
         check_jira_purge_status False env case_number verbose = Inl (SystemExit 1))
   \<and> (helper_exists env \<longrightarrow>
         (case helper_run env ([JIRA_PURGE_QUERY_PATH] @ (if \<not> verbose then [''-q''] else [])
                      @ [''aearep-'' @ case_number]) of
            Completed returncode out err \<Rightarrow>
              check_jira_purge_status False env case_number verbose
                = Inr (returncode = 0, if out \<noteq> [] then str_strip out else str_strip err)
          | TimeoutExpired \<Rightarrow>
              check_jira_purge_status False env case_number verbose = Inr (False, ''Timeout'')
          | RunRaises msg \<Rightarrow>
              check_jira_purge_status False env case_number verbose = Inr (False, msg)))"
  by (simp add: check_jira_purge_status_def Let_def split: proc_outcome.splits)

lemma helper_env_simps:
  "helper_exists (helper_env rc out err)" "helper_run (helper_env rc out err) args = Completed rc out err"
  by (simp_all add: helper_env_def example_env_def)

lemma strip1: "str_strip ''not ready\<newline>'' = ''not ready''" by code_simp
lemma strip2: "str_strip ''ready\<newline>'' = ''ready''" by code_simp

theorem readiness_check_witness:
  "helper_exists (helper_env 1 [] ''not ready\<newline>'')
   \<and> check_jira_purge_status False (helper_env 1 [] ''not ready\<newline>'') ''4322'' False
        = Inr (False, ''not ready'')
   \<and> check_jira_purge_status False (helper_env 0 ''ready\<newline>'' []) ''4321'' False
        = Inr (True, ''ready'')"
  using readiness_check[of "helper_env 1 [] ''not ready\<newline>''" "''4322''" False]
        readiness_check[of "helper_env 0 ''ready\<newline>'' []" "''4321''" False]
  by (simp add: helper_env_simps strip1 strip2)

text \<open>
  The claim as first worded fails twice.  A helper that prints \<open>ready\<close> and a line
  feed and ends with code zero gives the explanation \<open>ready\<close>, which is not its
  standard output.  And with the bypass flag set the check answers ready for a
  case whose helper run would end with code 1.
\<close>

theorem readiness_check_counterexample:
  "check_jira_purge_status False (helper_env 0 ''ready\<newline>'' []) ''4321'' False
      = Inr (True, ''ready'')
   \<and> ''ready'' \<noteq> ''ready\<newline>''
   \<and> fst (projr (check_jira_purge_status True (helper_env 1 [] ''not ready'') ''4322'' False))
   \<and> helper_run (helper_env 1 [] ''not ready'') [JIRA_PURGE_QUERY_PATH, ''-q'', ''aearep-4322'']
        = Completed 1 [] ''not ready''"
  by (simp add: check_jira_purge_status_def helper_env_simps strip2)

section \<open>Properties of the filter on trashed items\<close>

text \<open>
  The loop keeps an item exactly when none of its three steps skips it, and keeps
  the order of the listing.
\<close>

lemma filter_trashed_items_conjunctive:
  "filter_trashed_items parse cutoff items fid fname uf =
     filter (\<lambda>item. \<not> date_filter_skips parse cutoff item \<and> \<not> user_filter_skips uf item
                     \<and> folder_filter_matches fid fname item) items"
  by (induction items) (simp_all add: Let_def)

lemma folder_filter_matches_iff:
  "folder_filter_matches fid fname item \<longleftrightarrow>
     (\<not> truthy fid \<and> \<not> truthy fname)
     \<or> (truthy fid \<and> (Some (ti_id item) = fid \<or> (truthy (parent_id item) \<and> parent_id item = fid)
            \<or> (\<exists>f. fid = Some f \<and> path_has_folder (path_entries item) f)))
     \<or> (\<exists>n. truthy fname \<and> fname = Some n \<and> matches_folder_name (ti_name item) n)"
proof (cases fid)
  case None
  then show ?thesis
    by (cases fname) (simp_all add: folder_filter_matches_def)
next
  case (Some f)
  show ?thesis
  proof (cases fname)
    case None
    with Some show ?thesis
      by (simp add: folder_filter_matches_def) blast
  next
    case (Some n)
    with \<open>fid = Some f\<close> show ?thesis
      by (simp add: folder_filter_matches_def) blast
  qed
qed

lemma parent_id_matches:
  assumes "truthy fid" "parent_id item = fid"
  shows "folder_filter_matches fid fname item"
  using assms by (auto simp: folder_filter_matches_iff)

text \<open>
  The second and third part of C3 hold for every item: one deleted by a user whose
  login does not contain the configured name is left out, and so is one that no
  folder rule associates with the folder asked for.  The first part holds for a
  timestamp without offset and for one at or west of UTC.
\<close>

lemma filter_excludes_other_user:
  assumes "trashed_by item = UserDict d" "d \<noteq> []" "uf \<noteq> []"
    and "\<not> str_contains (str_lower uf) (str_lower (user_login_of (UserDict d)))"
  shows "item \<notin> set (filter_trashed_items parse cutoff items fid fname uf)"
  using assms
  by (cases d) (simp_all add: filter_trashed_items_conjunctive user_filter_skips_def)

lemma filter_excludes_unassociated:
  assumes "\<not> folder_filter_matches fid fname item"
  shows "item \<notin> set (filter_trashed_items parse cutoff items fid fname uf)"
  using assms by (simp add: filter_trashed_items_conjunctive)

lemma filter_excludes_before_cutoff_west:
  assumes "trashed_at item = Some s" "s \<noteq> []"
    and "parse (str_replace s ''Z'' ''+00:00'') = Some ts"
    and "utcoffset cutoff = None"
    and "utcoffset ts = None \<or> (\<exists>off. utcoffset ts = Some off \<and> off \<le> 0)"
    and "instant ts < instant cutoff"
  shows "item \<notin> set (filter_trashed_items parse cutoff items fid fname uf)"
proof -
  from assms have "date_filter_skips parse cutoff item"
    by (auto simp: date_filter_skips_def dt_less_def instant_def)
  then show ?thesis by (simp add: filter_trashed_items_conjunctive)
qed

lemma example_parent_matches:
  "folder_filter_matches (Some ''555'') fname (example_item i a u (Some ''555''))"
  by (rule parent_id_matches) (simp_all add: example_item_def)

lemma replace_noZ:
  "str_replace ''2026-10-27T13:00:00+05:00'' ''Z'' ''+00:00'' = ''2026-10-27T13:00:00+05:00''"
  by code_simp

lemma aeadata_passes: "\<not> user_filter_skips ''aeadata'' (example_item i a aeadata_user p)"
proof -
  have "str_contains (str_lower ''aeadata'') (str_lower ''AEAdata@example.org'')" by code_simp
  then show ?thesis
    by (simp add: user_filter_skips_def example_item_def aeadata_user_def user_login_of_def)
qed

lemma other_user_skipped: "user_filter_skips ''aeadata'' (example_item i a other_user p)"
proof -
  have "\<not> str_contains (str_lower ''aeadata'') (str_lower ''someone@example.org'')" by code_simp
  then show ?thesis
    by (simp add: user_filter_skips_def example_item_def other_user_def user_login_of_def)
qed

lemma early_not_skipped:
  "\<not> date_filter_skips example_iso (cutoff_date example_now 7)
       (example_item i (Some ''2026-10-27T13:00:00+05:00'') u p)"
  by (simp add: date_filter_skips_def example_item_def replace_noZ example_iso_def
        cutoff_date_def example_now_def dt_less_def)

text \<open>
  C3, where the code departs from it.  The cutoff is a UTC reading, seven days
  before 3 November 2026, 09:00 UTC.  The item was deleted by the configured user
  on 27 October 2026 at 13:00 in a zone five hours east of UTC, that is at 08:00
  UTC, one hour before the cutoff; its parent is the folder asked for.  The date
  step gives the cutoff the item's offset without converting it and so compares
  13:00 with 09:00: the item is not skipped, and the filter returns it.
\<close>

theorem filter_keeps_item_deleted_before_cutoff:
  "example_iso ''2026-10-27T13:00:00+05:00''
      = Some \<lparr>wall = 1793106000000000, utcoffset = Some 18000000000\<rparr>
   \<and> instant \<lparr>wall = 1793106000000000, utcoffset = Some 18000000000\<rparr>
       < instant (cutoff_date example_now 7)
   \<and> filter_trashed_items example_iso (cutoff_date example_now 7)
        [example_item ''701'' (Some ''2026-10-27T13:00:00+05:00'') aeadata_user (Some ''555'')]
        (Some ''555'') (Some ''aearep-7712'') ''aeadata''
      = [example_item ''701'' (Some ''2026-10-27T13:00:00+05:00'') aeadata_user (Some ''555'')]"
proof -
  have a: "example_iso ''2026-10-27T13:00:00+05:00''
      = Some \<lparr>wall = 1793106000000000, utcoffset = Some 18000000000\<rparr>"
    by (simp add: example_iso_def)
  have b: "instant \<lparr>wall = 1793106000000000, utcoffset = Some 18000000000\<rparr>
       < instant (cutoff_date example_now 7)"
    by (simp add: instant_def cutoff_date_def example_now_def)
  have c: "filter_trashed_items example_iso (cutoff_date example_now 7)
        [example_item ''701'' (Some ''2026-10-27T13:00:00+05:00'') aeadata_user (Some ''555'')]
        (Some ''555'') (Some ''aearep-7712'') ''aeadata''
      = [example_item ''701'' (Some ''2026-10-27T13:00:00+05:00'') aeadata_user (Some ''555'')]"
    by (simp add: filter_trashed_items_conjunctive early_not_skipped aeadata_passes example_parent_matches)
  from a b c show ?thesis by simp
qed

text \<open>
  C10.  Missing metadata never excludes an item.  An item with no deletion
  timestamp, with an empty one, or with one that \<open>fromisoformat\<close> rejects is not
  skipped by the date step, so that it is in the result exactly when the user
  step and the folder step let it through.  An item with no \<open>trashed_by\<close> value
  (or an empty one) is not skipped by the user step, so that it is in the result
  exactly when the date step and the folder step let it through.
\<close>

lemma date_filter_missing:
  "trashed_at item = None \<Longrightarrow> \<not> date_filter_skips parse cutoff item"
  "trashed_at item = Some [] \<Longrightarrow> \<not> date_filter_skips parse cutoff item"
  "trashed_at item = Some s \<Longrightarrow> parse (str_replace s ''Z'' ''+00:00'') = None
     \<Longrightarrow> \<not> date_filter_skips parse cutoff item"
  by (simp_all add: date_filter_skips_def)

lemma user_filter_missing:
  "trashed_by item = NoUser \<Longrightarrow> \<not> user_filter_skips uf item"
  "trashed_by item = UserDict [] \<Longrightarrow> \<not> user_filter_skips uf item"
  by (simp_all add: user_filter_skips_def)

theorem missing_metadata_never_excludes:
  "((trashed_at item = None \<or> trashed_at item = Some []
       \<or> (\<exists>s. trashed_at item = Some s \<and> parse (str_replace s ''Z'' ''+00:00'') = None))
      \<longrightarrow> \<not> date_filter_skips parse cutoff item
          \<and> (item \<in> set (filter_trashed_items parse cutoff items fid fname uf) \<longleftrightarrow>
               item \<in> set items \<and> \<not> user_filter_skips uf item
               \<and> folder_filter_matches fid fname item))
   \<and> ((trashed_by item = NoUser \<or> trashed_by item = UserDict [])
      \<longrightarrow> \<not> user_filter_skips uf item
          \<and> (item \<in> set (filter_trashed_items parse cutoff items fid fname uf) \<longleftrightarrow>
               item \<in> set items \<and> \<not> date_filter_skips parse cutoff item
               \<and> folder_filter_matches fid fname item))"
  by (auto simp: filter_trashed_items_conjunctive date_filter_missing user_filter_missing)

theorem missing_metadata_witness:
  "trashed_at (example_item ''702'' None aeadata_user (Some ''555'')) = None
   \<and> example_item ''702'' None aeadata_user (Some ''555'')
       \<in> set (filter_trashed_items example_iso (cutoff_date example_now 7)
                [example_item ''702'' None aeadata_user (Some ''555''),
                 example_item ''703'' (Some ''2026-11-01T09:00:00Z'') NoUser (Some ''555'')]
                (Some ''555'') (Some ''aearep-7712'') ''aeadata'')
   \<and> trashed_by (example_item ''703'' (Some ''2026-11-01T09:00:00Z'') NoUser (Some ''555''))
       = NoUser
   \<and> \<not> user_filter_skips ''aeadata''
         (example_item ''703'' (Some ''2026-11-01T09:00:00Z'') NoUser (Some ''555''))"
  using missing_metadata_never_excludes
          [of "example_item ''702'' None aeadata_user (Some ''555'')"
              example_iso "cutoff_date example_now 7"
              "[example_item ''702'' None aeadata_user (Some ''555''),
                example_item ''703'' (Some ''2026-11-01T09:00:00Z'') NoUser (Some ''555'')]"
              "Some ''555''" "Some ''aearep-7712''" "''aeadata''"]
        missing_metadata_never_excludes
          [of "example_item ''703'' (Some ''2026-11-01T09:00:00Z'') NoUser (Some ''555'')"
              example_iso "cutoff_date example_now 7" "[]"
              "Some ''555''" "Some ''aearep-7712''" "''aeadata''"]
        aeadata_passes[of "''702''" None "Some ''555''"]
        example_parent_matches[of "Some ''aearep-7712''" "''702''" None aeadata_user]
  by (simp add: example_item_def)

section \<open>What a cleanup run does to the outside world\<close>

text \<open>
  Each function extends the trace at its end.  The deletion loop adds deletion
  calls only; the move adds at most the one move call; in a dry run neither adds
  anything.
\<close>

lemma is_delete_simps [simp]:
  "is_delete (DeleteFile i)" "\<not> is_delete (MoveFolder a b)"
  "\<not> is_delete (CreateSubfolder a b)" "\<not> is_delete (AskConfirm n)"
  by (simp_all add: is_delete_def)

lemma is_prompt_simps [simp]:
  "\<not> is_prompt (DeleteFile i)" "\<not> is_prompt (MoveFolder a b)"
  "\<not> is_prompt (CreateSubfolder a b)" "is_prompt (AskConfirm n)"
  by (simp_all add: is_prompt_def)

lemma is_mutation_simps [simp]:
  "is_mutation (DeleteFile i)" "is_mutation (MoveFolder a b)"
  "is_mutation (CreateSubfolder a b)" "\<not> is_mutation (AskConfirm n)"
  by (simp_all add: is_mutation_def)

lemma prompts_append [simp]: "prompts (xs @ ys) = prompts xs + prompts ys"
  by (simp add: prompts_def)

lemma prompts_Nil [simp]: "prompts [] = 0"
  by (simp add: prompts_def)

lemma prompts_deletes: "list_all is_delete dels \<Longrightarrow> prompts dels = 0"
proof (induction dels)
  case Nil
  show ?case by simp
next
  case (Cons e dels)
  then show ?case by (cases e) (simp_all add: prompts_def)
qed

lemma delete_loop_trace:
  "\<exists>dels. trace (snd (delete_loop test_mode env files c b st)) = trace st @ dels
          \<and> list_all is_delete dels \<and> (test_mode \<longrightarrow> dels = [])"
proof (induction files arbitrary: c b st)
  case Nil
  show ?case by simp
next
  case (Cons f files)
  show ?case
  proof (cases test_mode)
    case True
    with Cons[of "c + 1" "b + fi_size f" st] show ?thesis by simp
  next
    case False
    let ?st' = "st\<lparr>trace := trace st @ [DeleteFile (fi_id f)]\<rparr>"
    show ?thesis
    proof (cases "delete_result env (fi_id f)")
      case Succeeds
      from Cons[of "c + 1" "b + fi_size f" ?st'] obtain dels where
        "trace (snd (delete_loop test_mode env files (c + 1) (b + fi_size f) ?st'))
           = trace ?st' @ dels" "list_all is_delete dels" by blast
      with False Succeeds show ?thesis
        by (intro exI[of _ "DeleteFile (fi_id f) # dels"]) (simp add: Let_def)
    next
      case (RaisesBoxAPI msg)
      let ?st2 = "?st'\<lparr>errors := errors ?st' + 1\<rparr>"
      from Cons[of c b ?st2] obtain dels where
        "trace (snd (delete_loop test_mode env files c b ?st2)) = trace ?st2 @ dels"
        "list_all is_delete dels" by blast
      with False RaisesBoxAPI show ?thesis
        by (intro exI[of _ "DeleteFile (fi_id f) # dels"]) (simp add: Let_def)
    next
      case RaisesOther
      with False show ?thesis
        by (intro exI[of _ "[DeleteFile (fi_id f)]"]) (simp add: Let_def)
    qed
  qed
qed

lemma delete_data_files_trace:
  "\<exists>dels. trace (snd (delete_data_files test_mode env files st)) = trace st @ dels
          \<and> list_all is_delete dels \<and> (test_mode \<longrightarrow> dels = [])"
proof -
  from delete_loop_trace[of test_mode env files 0 0 st] obtain dels where
    d: "trace (snd (delete_loop test_mode env files 0 0 st)) = trace st @ dels"
       "list_all is_delete dels" "test_mode \<longrightarrow> dels = []" by blast
  obtain r st' where e: "delete_loop test_mode env files 0 0 st = (r, st')"
    by (cases "delete_loop test_mode env files 0 0 st")
  with d show ?thesis
    by (intro exI[of _ dels]) (auto simp: delete_data_files_def split: sum.splits prod.splits)
qed

lemma move_result_state_independent:
  "fst (move_folder_to_completed test_mode env fid fname cid st)
     = fst (move_folder_to_completed test_mode env fid fname cid st')"
  by (simp add: move_folder_to_completed_def Let_def
           split: option.splits call_outcome.splits)

lemma move_trace:
  "\<exists>evs. trace (snd (move_folder_to_completed test_mode env fid fname cid st)) = trace st @ evs
         \<and> (evs = [] \<or> (\<exists>c. evs = [MoveFolder fid c])) \<and> (test_mode \<longrightarrow> evs = [])
         \<and> (\<not> test_mode \<and> fst (move_folder_to_completed test_mode env fid fname cid st) = Inr True
              \<longrightarrow> evs \<noteq> [])"
  by (simp add: move_folder_to_completed_def Let_def
           split: option.splits call_outcome.splits)

lemma move_keeps_deleted:
  "files_deleted (snd (move_folder_to_completed test_mode env fid fname cid st)) = files_deleted st
   \<and> bytes_deleted (snd (move_folder_to_completed test_mode env fid fname cid st)) = bytes_deleted st"
  by (simp add: move_folder_to_completed_def Let_def
           split: option.splits call_outcome.splits)


lemma process_case_folder_cases:
  fixes test_mode skip_jira env fid fname cn cid st
  defines "st1 \<equiv> st\<lparr>folders_checked := folders_checked st + 1\<rparr>"
  defines "st2 \<equiv> st1\<lparr>folders_ready := folders_ready st1 + 1\<rparr>"
  defines "mv \<equiv> move_folder_to_completed test_mode env fid fname cid st2"
  defines "st4 \<equiv> (snd mv)\<lparr>folders_moved := folders_moved (snd mv) + 1\<rparr>"
  defines "data_files \<equiv> fst (classify_files_recursive (folder_contents env fid))"
  defines "del \<equiv> delete_data_files test_mode env data_files st4"
  shows "process_case_folder test_mode skip_jira env fid fname cn cid st =
     (case check_jira_purge_status skip_jira env cn False of
        Inl e \<Rightarrow> (Inl e, st1)
      | Inr (is_ready, output) \<Rightarrow>
          if \<not> is_ready then (Inr False, st1)
          else (case fst mv of
                  Inl e \<Rightarrow> (Inl e, snd mv)
                | Inr move_success \<Rightarrow>
                    if \<not> move_success then (Inr False, snd mv)
                    else if data_files \<noteq> []
                      then (case fst del of Inl e \<Rightarrow> (Inl e, snd del)
                                          | Inr deleted \<Rightarrow> (Inr True, snd del))
                      else (Inr True, st4)))"
  unfolding process_case_folder_def st1_def st2_def mv_def st4_def data_files_def del_def
  by (simp add: Let_def split: sum.splits prod.splits)

lemma process_case_folder_effect:
  "\<exists>evs. trace (snd (process_case_folder test_mode skip_jira env fid fname cn cid st))
            = trace st @ evs
     \<and> (evs = [] \<or> (\<exists>c dels. evs = MoveFolder fid c # dels \<and> list_all is_delete dels))
     \<and> (fst (move_folder_to_completed test_mode env fid fname cid st) \<noteq> Inr True \<longrightarrow>
           \<not> list_ex is_delete evs
           \<and> files_deleted (snd (process_case_folder test_mode skip_jira env fid fname cn cid st))
               = files_deleted st
           \<and> bytes_deleted (snd (process_case_folder test_mode skip_jira env fid fname cn cid st))
               = bytes_deleted st)"
proof -
  define st1 where "st1 = st\<lparr>folders_checked := folders_checked st + 1\<rparr>"
  define st2 where "st2 = st1\<lparr>folders_ready := folders_ready st1 + 1\<rparr>"
  define mv where "mv = move_folder_to_completed test_mode env fid fname cid st2"
  define st4 where "st4 = (snd mv)\<lparr>folders_moved := folders_moved (snd mv) + 1\<rparr>"
  define data_files where "data_files = fst (classify_files_recursive (folder_contents env fid))"
  define del where "del = delete_data_files test_mode env data_files st4"
  define res where "res = process_case_folder test_mode skip_jira env fid fname cn cid st"
  note unfold = process_case_folder_cases[of test_mode skip_jira env fid fname cn cid st,
      folded st1_def, folded st2_def, folded mv_def, folded st4_def, folded data_files_def,
      folded del_def, folded res_def]
  have tr1: "trace st1 = trace st" "trace st2 = trace st"
    and fd1: "files_deleted st1 = files_deleted st" "files_deleted st2 = files_deleted st"
    and bd1: "bytes_deleted st1 = bytes_deleted st" "bytes_deleted st2 = bytes_deleted st"
    by (simp_all add: st1_def st2_def)
  from move_trace[of test_mode env fid fname cid st2] obtain mevs where
    m1: "trace (snd mv) = trace st @ mevs"
    and m2: "mevs = [] \<or> (\<exists>c. mevs = [MoveFolder fid c])"
    and m3: "test_mode \<longrightarrow> mevs = []"
    and m4: "\<not> test_mode \<and> fst mv = Inr True \<longrightarrow> mevs \<noteq> []"
    unfolding mv_def[symmetric] tr1 by blast
  have mfd: "files_deleted (snd mv) = files_deleted st" "bytes_deleted (snd mv) = bytes_deleted st"
    using move_keeps_deleted[of test_mode env fid fname cid st2] fd1 bd1
    by (simp_all add: mv_def)
  have mres: "fst mv = fst (move_folder_to_completed test_mode env fid fname cid st)"
    unfolding mv_def by (rule move_result_state_independent)
  from delete_data_files_trace[of test_mode env data_files st4] obtain dels where
    d1: "trace (snd del) = trace st @ mevs @ dels"
    and d2: "list_all is_delete dels" and d3: "test_mode \<longrightarrow> dels = []"
    unfolding del_def[symmetric] using m1 by (auto simp: st4_def)
  have no_del_mevs: "\<not> list_ex is_delete mevs" using m2 by auto
  have goal: "\<exists>evs. trace (snd res) = trace st @ evs
     \<and> (evs = [] \<or> (\<exists>c dels. evs = MoveFolder fid c # dels \<and> list_all is_delete dels))
     \<and> (fst mv \<noteq> Inr True \<longrightarrow>
           \<not> list_ex is_delete evs
           \<and> files_deleted (snd res) = files_deleted st
           \<and> bytes_deleted (snd res) = bytes_deleted st)"
  proof (cases "check_jira_purge_status skip_jira env cn False")
    case (Inl e)
    with unfold have "res = (Inl e, st1)" by simp
    with tr1 fd1 bd1 show ?thesis by (intro exI[of _ "[]"]) simp
  next
    case (Inr p)
    obtain is_ready out where p: "p = (is_ready, out)" by (cases p)
    show ?thesis
    proof (cases is_ready)
      case False
      with unfold Inr p have "res = (Inr False, st1)" by simp
      with tr1 fd1 bd1 show ?thesis by (intro exI[of _ "[]"]) simp
    next
      case True
      note ready = this
      show ?thesis
      proof (cases "fst mv")
        case (Inl e)
        with unfold Inr p ready have "res = (Inl e, snd mv)" by simp
        with m1 m2 mfd no_del_mevs show ?thesis
          by (intro exI[of _ mevs]) auto
      next
        case (Inr move_success)
        note mvr = this
        show ?thesis
        proof (cases move_success)
          case False
          with unfold \<open>check_jira_purge_status skip_jira env cn False = Inr p\<close> p ready mvr
          have "res = (Inr False, snd mv)" by simp
          with m1 m2 mfd no_del_mevs show ?thesis
            by (intro exI[of _ mevs]) auto
        next
          case True
          with mvr have ok: "fst mv = Inr True" by simp
          show ?thesis
          proof (cases "data_files \<noteq> []")
            case False
            with unfold \<open>check_jira_purge_status skip_jira env cn False = Inr p\<close> p ready ok
            have "res = (Inr True, st4)" by simp
            moreover have "trace st4 = trace st @ mevs" using m1 by (simp add: st4_def)
            ultimately show ?thesis using m2 ok
              by (intro exI[of _ mevs]) auto
          next
            case True
            with unfold \<open>check_jira_purge_status skip_jira env cn False = Inr p\<close> p ready ok
            have "snd res = snd del" by (simp split: sum.splits)
            with d1 have tr: "trace (snd res) = trace st @ (mevs @ dels)" by simp
            show ?thesis
            proof (cases test_mode)
              case True
              with m3 d3 tr ok show ?thesis by (intro exI[of _ "[]"]) simp
            next
              case False
              with m4 ok m2 obtain c where "mevs = [MoveFolder fid c]" by auto
              with tr d2 ok show ?thesis
                by (intro exI[of _ "MoveFolder fid c # dels"]) simp
            qed
          qed
        qed
      qed
    qed
  qed
  show ?thesis using goal unfolding res_def mres .
qed

text \<open>
  C1.  Whatever the outside world answers, what \<open>process_case_folder\<close> adds to the
  trace is either nothing or the move call of this folder followed by deletion
  calls only: no file is deleted before the folder has been moved.  And when
  \<open>move_folder_to_completed\<close> does not return \<open>True\<close> for the case (it returns
  \<open>False\<close>: no archive folder, a name collision, another storage error; or it
  raises), no deletion call is made and the counters of deleted files and bytes
  stay as they were.
\<close>

theorem move_before_delete:
  "\<exists>evs. trace (snd (process_case_folder test_mode skip_jira env fid fname cn cid st))
            = trace st @ evs
     \<and> (evs = [] \<or> (\<exists>c dels. evs = MoveFolder fid c # dels \<and> list_all is_delete dels))
     \<and> (fst (move_folder_to_completed test_mode env fid fname cid st) \<noteq> Inr True \<longrightarrow>
           \<not> list_ex is_delete evs
           \<and> files_deleted (snd (process_case_folder test_mode skip_jira env fid fname cn cid st))
               = files_deleted st
           \<and> bytes_deleted (snd (process_case_folder test_mode skip_jira env fid fname cn cid st))
               = bytes_deleted st)"
  by (rule process_case_folder_effect)

theorem move_before_delete_witness:
  "fst (move_folder_to_completed False name_in_use_env ''31'' ''aearep-20'' (Some ''35'')
          initial_state) = Inr False
   \<and> fst (classify_files_recursive (folder_contents name_in_use_env ''31'')) \<noteq> []
   \<and> trace (snd (process_case_folder False False name_in_use_env ''31'' ''aearep-20'' ''20''
                    (Some ''35'') initial_state)) = [MoveFolder ''31'' ''35'']
   \<and> files_deleted (snd (process_case_folder False False name_in_use_env ''31'' ''aearep-20''
                    ''20'' (Some ''35'') initial_state)) = 0
   \<and> trace (snd (process_case_folder False False example_env ''31'' ''aearep-20'' ''20''
                    (Some ''35'') initial_state))
        = [MoveFolder ''31'' ''35'', DeleteFile ''3101'', DeleteFile ''3104'']"
proof -
  have a: "fst (move_folder_to_completed False name_in_use_env ''31'' ''aearep-20'' (Some ''35'')
          initial_state) = Inr False" by code_simp
  have b: "fst (classify_files_recursive (folder_contents name_in_use_env ''31'')) \<noteq> []"
    by code_simp
  have c: "trace (snd (process_case_folder False False name_in_use_env ''31'' ''aearep-20'' ''20''
                    (Some ''35'') initial_state)) = [MoveFolder ''31'' ''35'']" by code_simp
  have d: "trace (snd (process_case_folder False False example_env ''31'' ''aearep-20'' ''20''
                    (Some ''35'') initial_state))
        = [MoveFolder ''31'' ''35'', DeleteFile ''3101'', DeleteFile ''3104'']" by code_simp
  from move_before_delete[of False False name_in_use_env "''31''" "''aearep-20''" "''20''"
         "Some ''35''" initial_state] a
  have "files_deleted (snd (process_case_folder False False name_in_use_env ''31'' ''aearep-20''
                    ''20'' (Some ''35'') initial_state)) = files_deleted initial_state"
    by auto
  then have e: "files_deleted (snd (process_case_folder False False name_in_use_env ''31''
                    ''aearep-20'' ''20'' (Some ''35'') initial_state)) = 0"
    by (simp add: initial_state_def)
  from a b c d e show ?thesis by simp
qed

section \<open>The confirmation prompt\<close>

lemma find_case_folders_trace:
  "trace (snd (find_case_folders env sc st)) = trace st"
  by (simp add: find_case_folders_def Let_def)

lemma get_or_create_trace:
  "\<exists>evs. trace (snd (get_or_create_completed_folder test_mode env st)) = trace st @ evs
         \<and> (evs = [] \<or> (\<exists>a b. evs = [CreateSubfolder a b])) \<and> (test_mode \<longrightarrow> evs = [])"
  by (simp add: get_or_create_completed_folder_def Let_def
           split: option.splits create_outcome.splits)

lemma process_case_folder_prompts:
  "prompts (trace (snd (process_case_folder test_mode skip_jira env fid fname cn cid st)))
     = prompts (trace st)"
proof -
  from process_case_folder_effect[of test_mode skip_jira env fid fname cn cid st]
  obtain evs where
    e: "trace (snd (process_case_folder test_mode skip_jira env fid fname cn cid st))
          = trace st @ evs"
    and s: "evs = [] \<or> (\<exists>c dels. evs = MoveFolder fid c # dels \<and> list_all is_delete dels)"
    by blast
  from s have "prompts evs = 0"
    by (auto simp: prompts_deletes) (simp add: prompts_def prompts_deletes[unfolded prompts_def])
  with e show ?thesis by simp
qed

lemma process_case_folder_dry_trace:
  "trace (snd (process_case_folder True skip_jira env fid fname cn cid st)) = trace st"
proof -
  have m: "trace (snd (move_folder_to_completed True env fid fname cid s)) = trace s" for s
    using move_trace[of True env fid fname cid s] by auto
  have d: "trace (snd (delete_data_files True env fs s)) = trace s" for fs s
    using delete_data_files_trace[of True env fs s] by auto
  show ?thesis
    unfolding process_case_folder_cases
    by (simp add: m d split: sum.splits prod.splits)
qed

lemma process_all_prompts:
  "prompts (trace (snd (process_all test_mode skip_jira env cid folders st))) = prompts (trace st)"
proof (induction folders arbitrary: st)
  case Nil
  show ?case by simp
next
  case (Cons f folders)
  obtain fid fname cn where f: "f = (fid, fname, cn)" by (cases f)
  obtain r st' where p: "process_case_folder test_mode skip_jira env fid fname cn cid st = (r, st')"
    by (cases "process_case_folder test_mode skip_jira env fid fname cn cid st")
  from process_case_folder_prompts[of test_mode skip_jira env fid fname cn cid st] p
  have q: "prompts (trace st') = prompts (trace st)" by simp
  show ?case
  proof (cases r)
    case (Inl e)
    then show ?thesis using f p q Cons[of "st'\<lparr>errors := errors st' + 1\<rparr>"]
      by (cases e) simp_all
  next
    case (Inr b)
    then show ?thesis using f p q Cons[of st'] by simp
  qed
qed

lemma process_all_dry_trace:
  "trace (snd (process_all True skip_jira env cid folders st)) = trace st"
proof (induction folders arbitrary: st)
  case Nil
  show ?case by simp
next
  case (Cons f folders)
  obtain fid fname cn where f: "f = (fid, fname, cn)" by (cases f)
  obtain r st' where p: "process_case_folder True skip_jira env fid fname cn cid st = (r, st')"
    by (cases "process_case_folder True skip_jira env fid fname cn cid st")
  from process_case_folder_dry_trace[of skip_jira env fid fname cn cid st] p
  have q: "trace st' = trace st" by simp
  show ?case
  proof (cases r)
    case (Inl e)
    then show ?thesis using f p q Cons[of "st'\<lparr>errors := errors st' + 1\<rparr>"]
      by (cases e) simp_all
  next
    case (Inr b)
    then show ?thesis using f p q Cons[of st'] by simp
  qed
qed

lemma get_or_create_prompts:
  "prompts (trace (snd (get_or_create_completed_folder test_mode env st))) = prompts (trace st)"
  using get_or_create_trace[of test_mode env st] by (auto simp: prompts_def)

lemma sort_key_Nil_iff: "sort_key f xs = [] \<longleftrightarrow> xs = []"
  by (metis length_0_conv length_sort)

lemma confirm_cleanup_prompts:
  "prompts (trace (snd (confirm_cleanup test_mode auto_confirm env folders st)))
     = prompts (trace st)
       + (if \<not> auto_confirm \<and> \<not> test_mode \<and> length folders > 1 then 1 else 0)"
  by (simp add: confirm_cleanup_def Let_def prompts_def split: option.splits)

lemma run_prompts:
  "prompts (trace (snd (run test_mode skip_jira env specific_case auto_confirm st)))
     = prompts (trace st) +
       (if auth_ok env \<and> (skip_jira \<or> helper_exists env) \<and> \<not> root_listing_fails env
           \<and> \<not> auto_confirm \<and> \<not> test_mode
           \<and> length (scan_case_folders specific_case (root_listing env)) > 1
        then 1 else 0)"
proof -
  let ?folders = "sort_key case_key (scan_case_folders specific_case (root_listing env))"
  let ?st1 = "st\<lparr>folders_found := length (scan_case_folders specific_case (root_listing env))\<rparr>"
  have len: "length ?folders = length (scan_case_folders specific_case (root_listing env))"
    by simp
  show ?thesis
  proof (cases "auth_ok env \<and> (skip_jira \<or> helper_exists env) \<and> \<not> root_listing_fails env")
    case False
    then show ?thesis by (auto simp: run_def find_case_folders_def)
  next
    case True
    then have fc: "find_case_folders env specific_case st = (Inr ?folders, ?st1)"
      by (simp add: find_case_folders_def Let_def)
    show ?thesis
    proof (cases "?folders = []")
      case True
      with \<open>auth_ok env \<and> (skip_jira \<or> helper_exists env) \<and> \<not> root_listing_fails env\<close> fc
      show ?thesis by (auto simp: run_def sort_key_Nil_iff)
    next
      case False
      obtain r st2 where c: "confirm_cleanup test_mode auto_confirm env ?folders ?st1 = (r, st2)"
        by (cases "confirm_cleanup test_mode auto_confirm env ?folders ?st1")
      from confirm_cleanup_prompts[of test_mode auto_confirm env ?folders ?st1] c len
      have p2: "prompts (trace st2) = prompts (trace st)
          + (if \<not> auto_confirm \<and> \<not> test_mode
                \<and> length (scan_case_folders specific_case (root_listing env)) > 1
             then 1 else 0)"
        by simp
      obtain r3 st3 where g: "get_or_create_completed_folder test_mode env st2 = (r3, st3)"
        by (cases "get_or_create_completed_folder test_mode env st2")
      from get_or_create_prompts[of test_mode env st2] g
      have p3: "prompts (trace st3) = prompts (trace st2)" by simp
      have run_eq: "run test_mode skip_jira env specific_case auto_confirm st =
          (case r of Inl e \<Rightarrow> (Inl e, st2)
           | Inr go \<Rightarrow> if \<not> go then (Inr (), st2)
               else (case r3 of Inl e \<Rightarrow> (Inl e, st3)
                     | Inr cid \<Rightarrow> process_all test_mode skip_jira env cid ?folders st3))"
        using True fc False c g by (auto simp: run_def split: sum.splits)
      show ?thesis
        unfolding run_eq using True p2 p3
        by (simp add: process_all_prompts split: sum.splits)
    qed
  qed
qed

lemma recovery_run_prompts:
  "prompts (recovery_trace (snd (recovery_run test_mode days_back renv case_number list_only
                                   auto_confirm rst)))
     = prompts (recovery_trace rst) +
       (if box_login_ok renv \<and> jira_login_ok renv
           \<and> truthy (fst (jira_box_info renv case_number))
           \<and> \<not> list_only
           \<and> filter_trashed_items (iso_parser renv) (cutoff_date (utcnow renv) days_back)
                (trash_listing renv) (fst (jira_box_info renv case_number))
                (snd (jira_box_info renv case_number)) ''aeadata'' \<noteq> []
           \<and> \<not> auto_confirm \<and> \<not> test_mode
        then 1 else 0)"
  by (simp add: recovery_run_def confirm_restore_def Let_def prompts_def
           split: prod.splits option.splits)

text \<open>
  C9, as amended.  The cleanup run asks for confirmation exactly once when it
  gets as far as having found case folders (login succeeds, the helper is there
  or not needed, the root folder can be listed) and the auto-confirm flag is off,
  dry-run mode is off and more than one case folder was found; otherwise it does
  not ask.  The recovery run, which always works on one case, asks exactly once
  when it has items to restore (both logins succeed, the ticket gives a folder
  id, the run is not list-only, the filter leaves at least one item) and the
  auto-confirm flag and dry-run mode are both off; otherwise it does not ask.
\<close>

theorem confirmation_prompt:
  "prompts (trace (snd (run test_mode skip_jira env specific_case auto_confirm st)))
     = prompts (trace st) +
       (if auth_ok env \<and> (skip_jira \<or> helper_exists env) \<and> \<not> root_listing_fails env
           \<and> \<not> auto_confirm \<and> \<not> test_mode
           \<and> length (scan_case_folders specific_case (root_listing env)) > 1
        then 1 else 0)
   \<and> prompts (recovery_trace (snd (recovery_run test_mode days_back renv case_number list_only
                                   auto_confirm rst)))
     = prompts (recovery_trace rst) +
       (if box_login_ok renv \<and> jira_login_ok renv
           \<and> truthy (fst (jira_box_info renv case_number))
           \<and> \<not> list_only
           \<and> filter_trashed_items (iso_parser renv) (cutoff_date (utcnow renv) days_back)
                (trash_listing renv) (fst (jira_box_info renv case_number))
                (snd (jira_box_info renv case_number)) ''aeadata'' \<noteq> []
           \<and> \<not> auto_confirm \<and> \<not> test_mode
        then 1 else 0)"
  using run_prompts[of test_mode skip_jira env specific_case auto_confirm st]
        recovery_run_prompts[of test_mode days_back renv case_number list_only auto_confirm rst]
  by (rule conjI)

lemma example_scan_lengths:
  "length (scan_case_folders None (root_listing example_env)) = 2"
  "length (scan_case_folders (Some ''20'') (root_listing example_env)) = 1"
  by code_simp+

theorem confirmation_prompt_witness:
  "prompts (trace (snd (run False False example_env None False initial_state))) = 1
   \<and> prompts (trace (snd (run False False example_env (Some ''20'') False initial_state))) = 0
   \<and> prompts (trace (snd (run False False example_env None True initial_state))) = 0
   \<and> prompts (trace (snd (run True False example_env None False initial_state))) = 0"
  using confirmation_prompt[of False False example_env None False initial_state]
        confirmation_prompt[of False False example_env "Some ''20''" False initial_state]
        confirmation_prompt[of False False example_env None True initial_state]
        confirmation_prompt[of True False example_env None False initial_state]
  by (simp add: example_scan_lengths initial_state_def) (simp add: example_env_def)

text \<open>
  The claim as first worded fails in the recovery workflow: a run on the single
  case 8040, with neither the auto-confirm flag nor dry-run mode, asks for
  confirmation before it restores the one item it found.
\<close>

theorem recovery_prompts_for_single_case:
  "prompts (recovery_trace (snd (recovery_run False 7 example_recovery_env ''8040'' False False
                                   initial_recovery_state))) = 1"
  by code_simp

section \<open>Dry run against live run\<close>

text \<open>
  When every move and every deletion succeeds, the two modes of a function return
  the same value and change the counters in the same way; they differ in the
  calls they put on the trace.
\<close>

lemma counters_trace_update [simp]: "counters (st\<lparr>trace := tr\<rparr>) = counters st"
  by (simp add: counters_def)

lemma delete_loop_dry_live:
  assumes ok: "\<forall>i. delete_result env i = Succeeds"
    and eq: "counters st1 = counters st2"
  shows "fst (delete_loop True env files c b st1) = fst (delete_loop False env files c b st2)
       \<and> counters (snd (delete_loop True env files c b st1))
           = counters (snd (delete_loop False env files c b st2))"
  using eq
proof (induction files arbitrary: c b st1 st2)
  case Nil
  then show ?case by simp
next
  case (Cons f files)
  let ?st2 = "st2\<lparr>trace := trace st2 @ [DeleteFile (fi_id f)]\<rparr>"
  from Cons.prems have "counters st1 = counters ?st2" by simp
  from Cons.IH[OF this, of "c + 1" "b + fi_size f"] ok show ?case
    by (simp add: Let_def)
qed

lemma delete_loop_ok_result:
  assumes ok: "\<forall>i. delete_result env i = Succeeds"
  shows "\<exists>n m. fst (delete_loop test_mode env files c b st) = Inr (n, m)"
proof (induction files arbitrary: c b st)
  case Nil
  show ?case by simp
next
  case (Cons f files)
  show ?case using ok Cons by (cases test_mode) (simp_all add: Let_def)
qed

lemma delete_loop_keeps_counters:
  assumes ok: "\<forall>i. delete_result env i = Succeeds"
  shows "counters (snd (delete_loop test_mode env files c b st)) = counters st"
proof (induction files arbitrary: c b st)
  case Nil
  show ?case by simp
next
  case (Cons f files)
  show ?case using ok Cons by (cases test_mode) (simp_all add: Let_def)
qed

lemma delete_data_files_dry_live:
  assumes ok: "\<forall>i. delete_result env i = Succeeds"
    and eq: "counters st1 = counters st2"
  shows "fst (delete_data_files True env files st1) = fst (delete_data_files False env files st2)
       \<and> counters (snd (delete_data_files True env files st1))
           = counters (snd (delete_data_files False env files st2))
       \<and> (\<exists>n. fst (delete_data_files True env files st1) = Inr n)"
proof -
  obtain r1 s1 where d1: "delete_loop True env files 0 0 st1 = (r1, s1)"
    by (cases "delete_loop True env files 0 0 st1")
  obtain r2 s2 where d2: "delete_loop False env files 0 0 st2 = (r2, s2)"
    by (cases "delete_loop False env files 0 0 st2")
  from delete_loop_dry_live[OF ok eq, of files 0 0] d1 d2
  have r: "r1 = r2" and c: "counters s1 = counters s2" by simp_all
  from delete_loop_ok_result[OF ok, of True files 0 0 st1] d1
  obtain n m where nm: "r1 = Inr (n, m)" by auto
  from c have "files_deleted s1 = files_deleted s2" "bytes_deleted s1 = bytes_deleted s2"
    by (simp_all add: counters_def)
  with c have "counters (s1\<lparr>files_deleted := files_deleted s1 + n,
                            bytes_deleted := bytes_deleted s1 + m\<rparr>)
             = counters (s2\<lparr>files_deleted := files_deleted s2 + n,
                            bytes_deleted := bytes_deleted s2 + m\<rparr>)"
    by (simp add: counters_def)
  moreover from r nm have "r2 = Inr (n, m)" by simp
  ultimately show ?thesis unfolding delete_data_files_def d1 d2 nm by simp
qed

lemma move_dry_live:
  assumes ok: "\<forall>i. move_result env i = Succeeds"
    and cid: "cid2 = Some c" "c \<noteq> []"
  shows "fst (move_folder_to_completed True env fid fname cid1 st1) = Inr True"
    "fst (move_folder_to_completed False env fid fname cid2 st2) = Inr True"
    "counters (snd (move_folder_to_completed True env fid fname cid1 st1)) = counters st1"
    "counters (snd (move_folder_to_completed False env fid fname cid2 st2)) = counters st2"
  using ok cid by (simp_all add: move_folder_to_completed_def Let_def)


lemma process_case_folder_dry_live:
  assumes mv: "\<forall>i. move_result env i = Succeeds"
    and del: "\<forall>i. delete_result env i = Succeeds"
    and cid: "cid2 = Some c" "c \<noteq> []"
    and eq: "counters st1 = counters st2"
  shows "fst (process_case_folder True skip_jira env fid fname cn cid1 st1)
           = fst (process_case_folder False skip_jira env fid fname cn cid2 st2)
       \<and> counters (snd (process_case_folder True skip_jira env fid fname cn cid1 st1))
           = counters (snd (process_case_folder False skip_jira env fid fname cn cid2 st2))"
proof -
  define a1 where "a1 = (st1\<lparr>folders_checked := folders_checked st1 + 1\<rparr>)"
  define a2 where "a2 = (st2\<lparr>folders_checked := folders_checked st2 + 1\<rparr>)"
  define b1 where "b1 = (a1\<lparr>folders_ready := folders_ready a1 + 1\<rparr>)"
  define b2 where "b2 = (a2\<lparr>folders_ready := folders_ready a2 + 1\<rparr>)"
  define m1 where "m1 = move_folder_to_completed True env fid fname cid1 b1"
  define m2 where "m2 = move_folder_to_completed False env fid fname cid2 b2"
  define d1 where "d1 = (snd m1)\<lparr>folders_moved := folders_moved (snd m1) + 1\<rparr>"
  define d2 where "d2 = (snd m2)\<lparr>folders_moved := folders_moved (snd m2) + 1\<rparr>"
  define data_files where "data_files = fst (classify_files_recursive (folder_contents env fid))"
  have ea: "counters a1 = counters a2" using eq by (simp add: a1_def a2_def counters_def)
  then have eb: "counters b1 = counters b2" by (simp add: b1_def b2_def counters_def)
  from move_dry_live[OF mv cid]
  have f1: "fst m1 = Inr True" and f2: "fst m2 = Inr True"
    and c1: "counters (snd m1) = counters b1" and c2: "counters (snd m2) = counters b2"
    by (simp_all add: m1_def m2_def)
  from c1 c2 eb have "counters (snd m1) = counters (snd m2)" by simp
  then have ed: "counters d1 = counters d2" by (simp add: d1_def d2_def counters_def)
  note dd = delete_data_files_dry_live[OF del ed, of data_files]
  from dd obtain n where n1: "fst (delete_data_files True env data_files d1) = Inr n" by blast
  with dd have n2: "fst (delete_data_files False env data_files d2) = Inr n" by simp
  note n = n1 n2
  show ?thesis
    unfolding process_case_folder_cases
    unfolding a1_def[symmetric] a2_def[symmetric] b1_def[symmetric] b2_def[symmetric]
      m1_def[symmetric] m2_def[symmetric] d1_def[symmetric] d2_def[symmetric]
      data_files_def[symmetric]
    using ea ed dd
    by (simp add: f1 f2 n split: sum.splits prod.splits)
qed

lemma process_all_dry_live:
  assumes mv: "\<forall>i. move_result env i = Succeeds"
    and del: "\<forall>i. delete_result env i = Succeeds"
    and cid: "cid2 = Some c" "c \<noteq> []"
    and eq: "counters st1 = counters st2"
  shows "fst (process_all True skip_jira env cid1 folders st1)
           = fst (process_all False skip_jira env cid2 folders st2)
       \<and> counters (snd (process_all True skip_jira env cid1 folders st1))
           = counters (snd (process_all False skip_jira env cid2 folders st2))"
  using eq
proof (induction folders arbitrary: st1 st2)
  case Nil
  then show ?case by simp
next
  case (Cons f folders)
  obtain fid fname cn where f: "f = (fid, fname, cn)" by (cases f)
  obtain r1 s1 where p1: "process_case_folder True skip_jira env fid fname cn cid1 st1 = (r1, s1)"
    by (cases "process_case_folder True skip_jira env fid fname cn cid1 st1")
  obtain r2 s2 where p2: "process_case_folder False skip_jira env fid fname cn cid2 st2 = (r2, s2)"
    by (cases "process_case_folder False skip_jira env fid fname cn cid2 st2")
  from process_case_folder_dry_live[OF mv del cid Cons.prems, of skip_jira fid fname cn cid1] p1 p2
  have r: "r2 = r1" and s: "counters s1 = counters s2" by simp_all
  show ?case
  proof (cases r1)
    case (Inl e)
    show ?thesis
    proof (cases e)
      case (SystemExit code)
      with Inl f p1 p2 r s show ?thesis by simp
    next
      case OtherException
      from s have "counters (s1\<lparr>errors := errors s1 + 1\<rparr>) = counters (s2\<lparr>errors := errors s2 + 1\<rparr>)"
        by (simp add: counters_def)
      from Cons.IH[OF this] OtherException Inl f p1 p2 r show ?thesis by simp
    qed
  next
    case (Inr b)
    from Cons.IH[OF s] Inr f p1 p2 r show ?thesis by simp
  qed
qed

lemma get_or_create_dry:
  "get_or_create_completed_folder True env st = (Inr (find_completed (root_listing env)), st)"
  by (simp add: get_or_create_completed_folder_def split: option.splits)

lemma get_or_create_live:
  assumes "\<not> root_listing_fails env" "create_result env = Created c" "c \<noteq> []"
    "find_completed (root_listing env) \<noteq> Some []"
  shows "\<exists>c' st'. get_or_create_completed_folder False env st = (Inr (Some c'), st')
            \<and> c' \<noteq> [] \<and> counters st' = counters st"
  using assms by (auto simp: get_or_create_completed_folder_def Let_def split: option.splits)

lemma confirm_cleanup_dry:
  "confirm_cleanup True auto_confirm env folders st = (Inr True, st)"
  by (simp add: confirm_cleanup_def)

lemma confirm_cleanup_live:
  assumes "auto_confirm \<or> (\<exists>r. stdin_line env = Some r \<and> str_lower r \<in> {''y'', ''yes''})"
  shows "\<exists>st'. confirm_cleanup False auto_confirm env folders st = (Inr True, st')
            \<and> counters st' = counters st"
  using assms by (auto simp: confirm_cleanup_def Let_def)

lemma run_dry_live:
  assumes mv: "\<forall>i. move_result env i = Succeeds"
    and del: "\<forall>i. delete_result env i = Succeeds"
    and cr: "create_result env = Created c" "c \<noteq> []"
    and ex: "find_completed (root_listing env) \<noteq> Some []"
    and yes: "auto_confirm \<or> (\<exists>r. stdin_line env = Some r \<and> str_lower r \<in> {''y'', ''yes''})"
  shows "fst (run True skip_jira env specific_case auto_confirm st)
           = fst (run False skip_jira env specific_case auto_confirm st)
       \<and> counters (snd (run True skip_jira env specific_case auto_confirm st))
           = counters (snd (run False skip_jira env specific_case auto_confirm st))"
proof (cases "auth_ok env \<and> (skip_jira \<or> helper_exists env) \<and> \<not> root_listing_fails env")
  case False
  then show ?thesis by (auto simp: run_def find_case_folders_def)
next
  case True
  let ?folders = "sort_key case_key (scan_case_folders specific_case (root_listing env))"
  let ?st1 = "st\<lparr>folders_found := length (scan_case_folders specific_case (root_listing env))\<rparr>"
  from True have fc: "find_case_folders env specific_case st = (Inr ?folders, ?st1)"
    by (simp add: find_case_folders_def Let_def)
  show ?thesis
  proof (cases "?folders = []")
    case True
    with \<open>auth_ok env \<and> (skip_jira \<or> helper_exists env) \<and> \<not> root_listing_fails env\<close> fc
    show ?thesis by (auto simp: run_def)
  next
    case False
    from confirm_cleanup_live[OF yes, of ?folders ?st1] obtain st2 where
      c2: "confirm_cleanup False auto_confirm env ?folders ?st1 = (Inr True, st2)"
      and e2: "counters st2 = counters ?st1" by blast
    from True get_or_create_live[OF _ cr ex, of st2] obtain c' st3 where
      g3: "get_or_create_completed_folder False env st2 = (Inr (Some c'), st3)"
      and c': "c' \<noteq> []" and e3: "counters st3 = counters st2" by blast
    have dry: "run True skip_jira env specific_case auto_confirm st
        = process_all True skip_jira env (find_completed (root_listing env)) ?folders ?st1"
      using True fc False by (auto simp: run_def confirm_cleanup_dry get_or_create_dry)
    have live: "run False skip_jira env specific_case auto_confirm st
        = process_all False skip_jira env (Some c') ?folders st3"
      using True fc False c2 g3 by (auto simp: run_def)
    from e2 e3 have "counters ?st1 = counters st3" by simp
    from process_all_dry_live[OF mv del refl c' this] show ?thesis
      unfolding dry live .
  qed
qed

text \<open>
  C5.  Take a world in which no mutating call fails: every move and every
  deletion succeeds, creating the archive folder succeeds, and folder ids are not
  empty.  Let the run go ahead in both modes (the auto-confirm flag is set, or
  the answer at the prompt is yes).  Then the dry run and the live run end the
  same way and leave every counter with the same value; and the dry run has
  issued no mutating call.
\<close>

theorem dry_run_counts_like_live_run:
  assumes "\<forall>i. move_result env i = Succeeds"
    and "\<forall>i. delete_result env i = Succeeds"
    and "\<exists>c. c \<noteq> [] \<and> create_result env = Created c"
    and "find_completed (root_listing env) \<noteq> Some []"
    and "auto_confirm \<or> (\<exists>r. stdin_line env = Some r \<and> str_lower r \<in> {''y'', ''yes''})"
  shows "counters (snd (run True skip_jira env specific_case auto_confirm st))
           = counters (snd (run False skip_jira env specific_case auto_confirm st))
       \<and> fst (run True skip_jira env specific_case auto_confirm st)
           = fst (run False skip_jira env specific_case auto_confirm st)
       \<and> filter is_mutation (trace (snd (run True skip_jira env specific_case auto_confirm st)))
           = filter is_mutation (trace st)"
proof -
  from assms(3) obtain c where c: "create_result env = Created c" "c \<noteq> []" by blast
  have tr: "trace (snd (run True skip_jira env specific_case auto_confirm st)) = trace st"
    by (auto simp: run_def find_case_folders_def confirm_cleanup_dry get_or_create_dry
          process_all_dry_trace Let_def)
  from run_dry_live[OF assms(1,2) c assms(4,5)] tr show ?thesis by simp
qed

theorem dry_run_counts_like_live_run_witness:
  "(\<forall>i. move_result example_env i = Succeeds)
   \<and> (\<forall>i. delete_result example_env i = Succeeds)
   \<and> counters (snd (run True False example_env None True initial_state))
       = (2, 2, 2, 2, 4, 300, 0)
   \<and> counters (snd (run False False example_env None True initial_state))
       = (2, 2, 2, 2, 4, 300, 0)
   \<and> filter is_mutation (trace (snd (run True False example_env None True initial_state))) = []
   \<and> trace (snd (run False False example_env None True initial_state))
       = [MoveFolder ''33'' ''35'', DeleteFile ''3301'', DeleteFile ''3304'',
          MoveFolder ''31'' ''35'', DeleteFile ''3101'', DeleteFile ''3104'']"
proof -
  have h1: "\<forall>i. move_result example_env i = Succeeds" by (simp add: example_env_def)
  have h2: "\<forall>i. delete_result example_env i = Succeeds" by (simp add: example_env_def)
  have h3: "\<exists>c. c \<noteq> [] \<and> create_result example_env = Created c"
    by (simp add: example_env_def)
  have h4: "find_completed (root_listing example_env) \<noteq> Some []" by code_simp
  have h5: "True \<or> (\<exists>r. stdin_line example_env = Some r \<and> str_lower r \<in> {''y'', ''yes''})"
    by simp
  have live: "counters (snd (run False False example_env None True initial_state))
       = (2, 2, 2, 2, 4, 300, 0)" by code_simp
  have calls: "trace (snd (run False False example_env None True initial_state))
       = [MoveFolder ''33'' ''35'', DeleteFile ''3301'', DeleteFile ''3304'',
          MoveFolder ''31'' ''35'', DeleteFile ''3101'', DeleteFile ''3104'']" by code_simp
  from dry_run_counts_like_live_run[OF h1 h2 h3 h4 h5, of False None initial_state] live
  have "counters (snd (run True False example_env None True initial_state))
          = (2, 2, 2, 2, 4, 300, 0)"
    and "filter is_mutation (trace (snd (run True False example_env None True initial_state)))
          = []"
    by (simp_all add: initial_state_def)
  with h1 h2 live calls show ?thesis by simp
qed

section \<open>Properties of the classification by extension\<close>

text \<open>No extension is in both sets, so the order of the two tests does not matter.\<close>

lemma data_document_disjoint:
  "set DATA_FILE_EXTENSIONS \<inter> set DOCUMENT_EXTENSIONS = {}"
proof -
  have "list_all (\<lambda>e. e \<notin> set DOCUMENT_EXTENSIONS) DATA_FILE_EXTENSIONS" by code_simp
  then show ?thesis by (auto simp: list_all_iff)
qed

text \<open>
  The walk puts every file of the tree into exactly one list: the data list is
  the files of the tree that classify as data, the document list is the others,
  both in the order of the walk.
\<close>

lemma recurse_folder_walk:
  "recurse_folder items path_prefix (data_files, document_files) =
     (data_files @ filter (\<lambda>f. classify_name (fi_name f) = Data) (walk items path_prefix),
      document_files @ filter (\<lambda>f. classify_name (fi_name f) = Document) (walk items path_prefix))"
proof (induction items path_prefix "(data_files, document_files)"
        arbitrary: data_files document_files rule: recurse_folder.induct)
  case (1 path_prefix)
  show ?case by simp
next
  case (2 i name sz items path_prefix data_files document_files)
  show ?case
  proof (cases "classify_name name")
    case Data
    with 2 show ?thesis by (simp add: Let_def)
  next
    case Document
    with 2 show ?thesis by (simp add: Let_def)
  qed
next
  case (3 i name sub items path_prefix acc)
  then show ?case by (simp add: Let_def)
next
  case (4 i name items path_prefix acc)
  then show ?case by simp
qed

text \<open>
  The extension of a name that ends in a dot and a run of characters free of dots
  and slashes, when the part before that dot has, after its last slash, a
  character that is not a dot.
\<close>

lemma rfind_last:
  assumes "c \<notin> set ys"
  shows "rfind (xs @ c # ys) c = int (length xs)"
proof -
  have "takeWhile (\<lambda>x. x \<noteq> c) (rev ys @ c # rev xs) = takeWhile (\<lambda>x. x \<noteq> c) (rev ys)"
    by (rule takeWhile_tail) simp
  also have "\<dots> = rev ys" using assms by (auto simp: takeWhile_eq_all_conv)
  finally show ?thesis by (simp add: rfind_def)
qed

lemma rfind_absent: "c \<notin> set p \<Longrightarrow> rfind p c = - 1"
  by (simp add: rfind_def)

lemma splitext_scan_iff:
  "splitext_scan p a b \<longleftrightarrow> (\<exists>i. a \<le> i \<and> i < b \<and> p ! i \<noteq> CHR ''.'')"
proof (induction p a b rule: splitext_scan.induct)
  case (1 p a b)
  show ?case
  proof (cases "a < b")
    case False
    then show ?thesis by (subst splitext_scan.simps) auto
  next
    case True
    show ?thesis
    proof (cases "p ! a \<noteq> CHR ''.''")
      case True
      with \<open>a < b\<close> show ?thesis by (subst splitext_scan.simps) auto
    next
      case False
      with \<open>a < b\<close> 1 have "splitext_scan p a b \<longleftrightarrow> (\<exists>i. a + 1 \<le> i \<and> i < b \<and> p ! i \<noteq> CHR ''.'')"
        by (subst splitext_scan.simps) simp
      also have "\<dots> \<longleftrightarrow> (\<exists>i. a \<le> i \<and> i < b \<and> p ! i \<noteq> CHR ''.'')"
        using False by (metis Suc_eq_plus1 Suc_leD Suc_leI le_neq_implies_less)
      finally show ?thesis .
    qed
  qed
qed

lemma splitext_stem_ext:
  assumes sl: "CHR ''/'' \<notin> set base" "CHR ''/'' \<notin> set r"
    and dot: "CHR ''.'' \<notin> set r"
    and dir: "dir = [] \<or> last dir = CHR ''/''"
    and nd: "\<exists>c\<in>set base. c \<noteq> CHR ''.''"
  shows "splitext (dir @ base @ CHR ''.'' # r) = (dir @ base, CHR ''.'' # r)"
proof -
  let ?p = "dir @ base @ CHR ''.'' # r"
  have d: "rfind ?p CHR ''.'' = int (length (dir @ base))"
    using rfind_last[OF dot, of "dir @ base"] by simp
  have s: "rfind ?p CHR ''/'' = int (length dir) - 1"
  proof (cases "dir = []")
    case True
    with sl show ?thesis by (simp add: rfind_absent)
  next
    case False
    with dir obtain d' where d': "dir = d' @ [CHR ''/'']"
      by (metis append_butlast_last_id)
    from sl have "CHR ''/'' \<notin> set (base @ CHR ''.'' # r)" by simp
    from rfind_last[OF this, of d'] d' show ?thesis by simp
  qed
  from nd obtain j where j: "j < length base" "base ! j \<noteq> CHR ''.''"
    by (auto simp: in_set_conv_nth)
  then have "length dir \<le> length dir + j \<and> length dir + j < length (dir @ base)
       \<and> ?p ! (length dir + j) \<noteq> CHR ''.''"
    by (simp add: nth_append)
  then have scan: "splitext_scan ?p (length dir) (length (dir @ base))"
    unfolding splitext_scan_iff by blast
  have "nat (rfind ?p CHR ''/'' + 1) = length dir" "nat (rfind ?p CHR ''.'') = length (dir @ base)"
    "rfind ?p CHR ''.'' > rfind ?p CHR ''/''"
    unfolding d s by simp_all
  with scan show ?thesis
    unfolding splitext_def Let_def by simp
qed

lemma lower_char_eq_iff:
  assumes "of_char x < (65::nat)"
  shows "lower_char c = x \<longleftrightarrow> c = x"
proof
  assume "c = x"
  with assms show "lower_char c = x" by (simp add: lower_char_def)
next
  assume l: "lower_char c = x"
  show "c = x"
  proof (rule ccontr)
    assume ne: "c \<noteq> x"
    let ?n = "of_char c :: nat"
    from l ne have rng: "(65 \<le> ?n \<and> ?n \<le> 90) \<or> (192 \<le> ?n \<and> ?n \<le> 222 \<and> ?n \<noteq> 215)"
      and "x = char_of (?n + 32)"
      by (auto simp: lower_char_def Let_def split: if_splits)
    then have "(of_char x :: nat) = (?n + 32) mod 256" by (simp add: of_char_of)
    with rng assms show False by auto
  qed
qed

lemma lower_char_dot [simp]: "lower_char c = CHR ''.'' \<longleftrightarrow> c = CHR ''.''"
  by (rule lower_char_eq_iff) simp

lemma lower_char_slash [simp]: "lower_char c = CHR ''/'' \<longleftrightarrow> c = CHR ''/''"
  by (rule lower_char_eq_iff) simp


lemma lower_char_dot_sym [simp]: "CHR ''.'' = lower_char c \<longleftrightarrow> c = CHR ''.''"
  using lower_char_dot[of c] by (simp only: eq_commute)

lemma lower_char_slash_sym [simp]: "CHR ''/'' = lower_char c \<longleftrightarrow> c = CHR ''/''"
  using lower_char_slash[of c] by (simp only: eq_commute)

lemma extensions_shape:
  "list_all (\<lambda>e. e \<noteq> [] \<and> hd e = CHR ''.'' \<and> CHR ''.'' \<notin> set (tl e) \<and> CHR ''/'' \<notin> set (tl e))
     (DATA_FILE_EXTENSIONS @ DOCUMENT_EXTENSIONS)"
  by code_simp

lemma file_extension_stem_ext:
  assumes e: "e \<in> set DATA_FILE_EXTENSIONS \<union> set DOCUMENT_EXTENSIONS"
    and ending: "str_lower ending = e"
    and base: "CHR ''/'' \<notin> set base" "\<exists>c\<in>set base. c \<noteq> CHR ''.''"
    and dir: "dir = [] \<or> last dir = CHR ''/''"
  shows "file_extension (dir @ base @ ending) = e"
proof -
  from e extensions_shape
  have sh: "e \<noteq> [] \<and> hd e = CHR ''.'' \<and> CHR ''.'' \<notin> set (tl e) \<and> CHR ''/'' \<notin> set (tl e)"
    by (auto simp: list_all_iff)
  define r where "r = tl e"
  with sh have r: "e = CHR ''.'' # r" "CHR ''.'' \<notin> set r" "CHR ''/'' \<notin> set r"
    by (cases e; simp)+
  have low: "str_lower (dir @ base @ ending) = str_lower dir @ str_lower base @ CHR ''.'' # r"
    using ending r(1) by (simp add: str_lower_def)
  have b1: "CHR ''/'' \<notin> set (str_lower base)"
  proof
    assume "CHR ''/'' \<in> set (str_lower base)"
    then obtain x where x: "x \<in> set base" "CHR ''/'' = lower_char x"
      by (auto simp only: str_lower_def set_map)
    from x(2) have "x = CHR ''/''" by (simp only: lower_char_slash_sym)
    with x(1) base(1) show False by simp
  qed
  from base(2) obtain c where c: "c \<in> set base" "c \<noteq> CHR ''.''" by blast
  from c(2) have "lower_char c \<noteq> CHR ''.''" by (simp only: lower_char_dot not_False_eq_True)
  moreover from c(1) have "lower_char c \<in> set (str_lower base)"
    by (simp only: str_lower_def set_map imageI)
  ultimately have b2: "\<exists>c\<in>set (str_lower base). c \<noteq> CHR ''.''" by blast
  have lsl: "lower_char CHR ''/'' = CHR ''/''" by (simp only: lower_char_slash)
  have d: "str_lower dir = [] \<or> last (str_lower dir) = CHR ''/''"
  proof (cases "dir = []")
    case True
    then show ?thesis by (simp add: str_lower_def)
  next
    case False
    with dir have "last dir = CHR ''/''" by simp
    with False have "last (str_lower dir) = CHR ''/''"
      unfolding str_lower_def using last_map[OF False, of lower_char] lsl by simp
    then show ?thesis ..
  qed
  from splitext_stem_ext[OF b1 r(3) r(2) d b2] show ?thesis
    unfolding file_extension_def low r(1) by simp
qed

text \<open>
  C2.  The class of a file name is a function of the extension of the lowercased
  name and of nothing else: data when the extension is in the data set, document
  when it is in the document set or in neither.  In particular a name made of a
  base with some character other than a dot, followed by an extension of the data
  set in any mix of cases, is classified data, and one followed by an extension
  of the document set is classified document.  The recursive walk sorts every
  file of the tree by that class.
\<close>

theorem classification_by_extension:
  "classify_name name
     = (if file_extension name \<in> set DATA_FILE_EXTENSIONS then Data else Document)
   \<and> file_extension name = snd (splitext (str_lower name))
   \<and> (file_extension name \<in> set DOCUMENT_EXTENSIONS \<longrightarrow> classify_name name = Document)
   \<and> (file_extension name \<notin> set DATA_FILE_EXTENSIONS \<union> set DOCUMENT_EXTENSIONS
        \<longrightarrow> classify_name name = Document)
   \<and> (file_extension name = file_extension other \<longrightarrow> classify_name name = classify_name other)
   \<and> (CHR ''/'' \<notin> set base \<and> (\<exists>c\<in>set base. c \<noteq> CHR ''.'')
        \<and> (dir = [] \<or> last dir = CHR ''/'') \<longrightarrow>
          (str_lower ending \<in> set DATA_FILE_EXTENSIONS
             \<longrightarrow> classify_name (dir @ base @ ending) = Data)
          \<and> (str_lower ending \<in> set DOCUMENT_EXTENSIONS
             \<longrightarrow> classify_name (dir @ base @ ending) = Document))
   \<and> classify_files_recursive folder
       = (filter (\<lambda>f. classify_name (fi_name f) = Data) (walk folder []),
          filter (\<lambda>f. classify_name (fi_name f) = Document) (walk folder []))"
proof -
  have a: "classify_name n
     = (if file_extension n \<in> set DATA_FILE_EXTENSIONS then Data else Document)" for n
    by (simp add: classify_name_def)
  have b: "file_extension name = snd (splitext (str_lower name))"
    by (simp add: file_extension_def)
  have c: "file_extension name \<in> set DOCUMENT_EXTENSIONS \<longrightarrow> classify_name name = Document"
    using data_document_disjoint by (auto simp: a)
  have d: "file_extension name \<notin> set DATA_FILE_EXTENSIONS \<union> set DOCUMENT_EXTENSIONS
        \<longrightarrow> classify_name name = Document"
    by (simp add: a)
  have e: "file_extension name = file_extension other \<longrightarrow> classify_name name = classify_name other"
    by (simp add: a)
  have f: "(str_lower ending \<in> set DATA_FILE_EXTENSIONS
             \<longrightarrow> classify_name (dir @ base @ ending) = Data)
          \<and> (str_lower ending \<in> set DOCUMENT_EXTENSIONS
             \<longrightarrow> classify_name (dir @ base @ ending) = Document)"
    if h: "CHR ''/'' \<notin> set base" "\<exists>c\<in>set base. c \<noteq> CHR ''.''" "dir = [] \<or> last dir = CHR ''/''"
  proof (intro conjI impI)
    assume m: "str_lower ending \<in> set DATA_FILE_EXTENSIONS"
    then have "file_extension (dir @ base @ ending) = str_lower ending"
      using file_extension_stem_ext[OF _ refl h] by simp
    with m show "classify_name (dir @ base @ ending) = Data" by (simp add: a)
  next
    assume m: "str_lower ending \<in> set DOCUMENT_EXTENSIONS"
    then have "file_extension (dir @ base @ ending) = str_lower ending"
      using file_extension_stem_ext[OF _ refl h] by simp
    with m data_document_disjoint show "classify_name (dir @ base @ ending) = Document"
      by (auto simp: a)
  qed
  have g: "classify_files_recursive folder
       = (filter (\<lambda>f. classify_name (fi_name f) = Data) (walk folder []),
          filter (\<lambda>f. classify_name (fi_name f) = Document) (walk folder []))"
    by (simp add: classify_files_recursive_def recurse_folder_walk)
  from a[of name] b c d e f g show ?thesis by blast
qed

theorem classification_by_extension_witness:
  "str_lower ''.CSV'' \<in> set DATA_FILE_EXTENSIONS
   \<and> classify_name ''Data.CSV'' = Data
   \<and> str_lower ''.Pdf'' \<in> set DOCUMENT_EXTENSIONS
   \<and> classify_name ''report.Pdf'' = Document
   \<and> file_extension ''notes.xyz'' \<notin> set DATA_FILE_EXTENSIONS \<union> set DOCUMENT_EXTENSIONS
   \<and> classify_name ''notes.xyz'' = Document
   \<and> classify_name ''.csv'' = Document
   \<and> map fi_path (fst (classify_files_recursive (folder_contents example_env ''31'')))
       = [''/data.CSV'', ''/docs/raw.dta'']
   \<and> map fi_path (snd (classify_files_recursive (folder_contents example_env ''31'')))
       = [''/docs/report.pdf'', ''/docs/notes'']"
proof -
  have h1: "str_lower ''.CSV'' \<in> set DATA_FILE_EXTENSIONS" by code_simp
  have h2: "str_lower ''.Pdf'' \<in> set DOCUMENT_EXTENSIONS" by code_simp
  have h3: "file_extension ''notes.xyz'' \<notin> set DATA_FILE_EXTENSIONS \<union> set DOCUMENT_EXTENSIONS"
    by code_simp
  have b1: "CHR ''/'' \<notin> set ''Data'' \<and> (\<exists>c\<in>set ''Data''. c \<noteq> CHR ''.'')" by simp
  have b2: "CHR ''/'' \<notin> set ''report'' \<and> (\<exists>c\<in>set ''report''. c \<noteq> CHR ''.'')" by simp
  from classification_by_extension[of "''notes.xyz''" "''notes.xyz''" "''Data''" "[]" "''.CSV''" "[]"]
    h1 b1
  have c1: "classify_name ''Data.CSV'' = Data" by simp
  from classification_by_extension[of "''notes.xyz''" "''notes.xyz''" "''report''" "[]" "''.Pdf''" "[]"]
    h2 b2
  have c2: "classify_name ''report.Pdf'' = Document" by simp
  from classification_by_extension[of "''notes.xyz''" "''notes.xyz''" "[]" "[]" "[]" "[]"] h3
  have c3: "classify_name ''notes.xyz'' = Document" by blast
  have c4: "classify_name ''.csv'' = Document" by code_simp
  have c5: "map fi_path (fst (classify_files_recursive (folder_contents example_env ''31'')))
       = [''/data.CSV'', ''/docs/raw.dta'']" by code_simp
  have c6: "map fi_path (snd (classify_files_recursive (folder_contents example_env ''31'')))
       = [''/docs/report.pdf'', ''/docs/notes'']" by code_simp
  from h1 h2 h3 c1 c2 c3 c4 c5 c6 show ?thesis by simp
qed

end
